theory Spec2Isabelle
  imports Complex_Main "HOL-Library.Multiset"
begin

section \<open>The gDLS* robust estimator (gdls\_star\_robust\_estimator.cc)\<close>

text \<open>
  A shallow embedding of \<^verbatim>\<open>GdlsStarRobustEstimator\<close>: its constructor, \<^verbatim>\<open>RandInt\<close>,
  \<^verbatim>\<open>Sample\<close>, \<^verbatim>\<open>UpdateBestSolution\<close>, \<^verbatim>\<open>ComputeMaxIterations\<close> and \<^verbatim>\<open>Estimate\<close>.

  Conventions of the embedding.
  \<^item> A C++ \<^verbatim>\<open>double\<close> is a \<^typ>\<open>real\<close>: arithmetic is exact, there is no rounding, no
    infinity and no NaN. Where the source can produce a NaN or an infinity (the logarithm
    of a non-positive number) the model branches explicitly.
  \<^item> The one expression that is rounded is the confidence \<^verbatim>\<open>Estimate\<close> computes after its
    loop, because its range depends on the rounding: there each subtraction and each
    \<^verbatim>\<open>std::pow\<close> returns the double nearest to the exact result (IEEE 754 binary64,
    round to nearest, ties to even).
  \<^item> A glog \<^verbatim>\<open>CHECK\<close> that fails aborts the process: the model returns \<open>Inl\<close> of the
    check that failed. An access outside a \<^verbatim>\<open>std::vector\<close> and a
    \<^verbatim>\<open>uniform_int_distribution\<close> with an empty range are undefined behaviour in C++; the
    model returns \<open>Inl\<close> for them too.
  \<^item> \<^verbatim>\<open>static_cast<int>\<close> of a double that does not fit a 32-bit \<^verbatim>\<open>int\<close> (or is NaN) is
    undefined behaviour; what the platform then yields is a parameter of the model
    (\<open>CastUndefined\<close>).
  \<^item> The \<^verbatim>\<open>int\<close> counters and bounds are HOL integers, and sizes are natural numbers:
    \<open>num_iterations\<close> never passes a bound that is an \<^verbatim>\<open>int\<close>, and the sizes are those
    of vectors in memory.
  \<^item> A member function takes the estimator (\<open>this\<close>) and returns it with the result when
    it changes it; \<open>Estimate\<close> returns the solution, the summary it wrote and the
    estimator.
  \<^item> Code that is not in this file of the repository is a parameter: the random
    generator, the camera's \<^verbatim>\<open>ProjectPoint\<close>, \<^verbatim>\<open>ComputeInputDatum\<close> and the minimal solver
    \<^verbatim>\<open>EstimateSimilarityTransformation\<close>. They are collected in one record of
    collaborators, and are taken to be functions of their arguments.
\<close>

subsection \<open>Data\<close>

type_synonym Vector2d = "real \<times> real"
type_synonym Vector3d = "real \<times> real \<times> real"

datatype Quaterniond = Quaternion (quat_w: real) (quat_x: real) (quat_y: real) (quat_z: real)

record 'cam CameraFeatureCorrespondence2D3D =
  point :: Vector3d
  observation :: Vector2d
  camera :: 'cam

record Solution =
  rotations :: "Quaterniond list"
  translations_v :: "Vector3d list"
  scales :: "real list"

record ('dat, 'pri) Input =
  datum :: 'dat
  priors :: 'pri

record RansacParameters =
  failure_probability :: real
  reprojection_error_thresh :: real
  min_iterations :: int
  max_iterations :: int
  seed :: nat

record RansacSummary =
  inliers :: "int list"
  num_iterations :: int
  num_hypotheses :: int
  confidence :: real

record 'g GdlsStarRobustEstimator =
  params_m :: RansacParameters
  prng_m :: 'g
  correspondence_indices_m :: "int list"

text \<open>What a conversion to \<^verbatim>\<open>int\<close> is given: a NaN, or a number.\<close>

datatype cast_arg = NotANumber | Number real

record ('g, 'cam, 'dat, 'pri) collaborators =
  SeedPrng :: "nat \<Rightarrow> 'g"
  UniformInt :: "'g \<Rightarrow> int \<Rightarrow> int \<Rightarrow> int \<times> 'g"
  ProjectPoint :: "'cam \<Rightarrow> Vector3d \<Rightarrow> real \<times> Vector2d"
  ComputeInputDatum :: "'cam CameraFeatureCorrespondence2D3D list \<Rightarrow> ('dat, 'pri) Input"
  EstimateSimilarityTransformation :: "('dat, 'pri) Input \<Rightarrow> Solution \<Rightarrow> bool \<times> Solution"
  CastUndefined :: "cast_arg \<Rightarrow> int"

datatype error =
    CheckFailureProbabilityGT0
  | CheckFailureProbabilityLT1
  | CheckReprojectionErrorThreshGT0
  | CheckMinIterationsGE0
  | CheckMaxIterationsGTMin
  | CheckInlierRatioGT0
  | CheckSummaryNotNull
  | CheckEnoughCorrespondences
  | EmptyDistributionRange
  | IndexOutOfRange

subsection \<open>Constants and numeric helpers\<close>

definition kMinimalSampleSize :: nat where
  "kMinimalSampleSize = 4"

text \<open>\<^verbatim>\<open>std::numeric_limits<double>::epsilon()\<close>.\<close>

definition DBL_EPSILON :: real where
  "DBL_EPSILON = 1 / 2 ^ 52"

definition INT_MIN :: int where
  "INT_MIN = - (2 ^ 31)"

definition INT_MAX :: int where
  "INT_MAX = 2 ^ 31 - 1"

text \<open>Truncation toward zero, as the conversion of a double to an integer does.\<close>

definition trunc :: "real \<Rightarrow> int" where
  "trunc v = (if 0 \<le> v then \<lfloor>v\<rfloor> else \<lceil>v\<rceil>)"

text \<open>
  \<^verbatim>\<open>static_cast<int>(x)\<close>: the truncated value when it fits a 32-bit \<^verbatim>\<open>int\<close>; otherwise
  (and for a NaN) whatever \<open>undefined_cast\<close> yields.
\<close>

definition static_cast_int :: "(cast_arg \<Rightarrow> int) \<Rightarrow> cast_arg \<Rightarrow> int" where
  "static_cast_int undefined_cast a =
     (case a of
        NotANumber \<Rightarrow> undefined_cast NotANumber
      | Number v \<Rightarrow>
          if INT_MIN \<le> trunc v \<and> trunc v \<le> INT_MAX then trunc v
          else undefined_cast (Number v))"

text \<open>\<^verbatim>\<open>std::clamp(v, lo, hi)\<close>, as the standard gives it.\<close>

definition clamp :: "int \<Rightarrow> int \<Rightarrow> int \<Rightarrow> int" where
  "clamp v lo hi = (if v < lo then lo else if hi < v then hi else v)"

definition in_range :: "'a list \<Rightarrow> int \<Rightarrow> bool" where
  "in_range xs k = (0 \<le> k \<and> k < int (length xs))"

subsection \<open>Rounding to the nearest double\<close>

text \<open>
  The integer nearest to \<open>z\<close>, a tie going to the even neighbour.
\<close>

definition round_half_even :: "real \<Rightarrow> int" where
  "round_half_even z =
     (let f = \<lfloor>z\<rfloor>
      in if z - of_int f < 1 / 2 then f
         else if 1 / 2 < z - of_int f then f + 1
         else if even f then f else f + 1)"

text \<open>
  The exponent of the binade of \<open>x\<close>, not below that of the smallest normal double
  (\<open>2 ^ -1022\<close>), and the distance between neighbouring doubles there (52 bits of
  fraction).
\<close>

definition double_exponent :: "real \<Rightarrow> int" where
  "double_exponent x = max \<lfloor>log 2 \<bar>x\<bar>\<rfloor> (- 1022)"

definition double_ulp :: "real \<Rightarrow> real" where
  "double_ulp x = 2 powr of_int (double_exponent x - 52)"

text \<open>
  The double nearest to the real \<open>x\<close>. Overflow is left out: the values rounded in this
  file are below \<open>2\<close>.
\<close>

definition round_double :: "real \<Rightarrow> real" where
  "round_double x =
     (if x = 0 then 0 else double_ulp x * of_int (round_half_even (x / double_ulp x)))"

text \<open>
  Subtraction of doubles, and \<^verbatim>\<open>std::pow\<close> with an exponent that is a natural number.
\<close>

definition double_minus :: "real \<Rightarrow> real \<Rightarrow> real" where
  "double_minus a b = round_double (a - b)"

definition double_pow :: "real \<Rightarrow> nat \<Rightarrow> real" where
  "double_pow x n = round_double (x ^ n)"

subsection \<open>Construction\<close>

definition GdlsStarRobustEstimator_new ::
  "('g, 'cam, 'dat, 'pri) collaborators \<Rightarrow> RansacParameters \<Rightarrow> error + 'g GdlsStarRobustEstimator"
where
  "GdlsStarRobustEstimator_new env ransac_params =
     (if \<not> failure_probability ransac_params > 0 then Inl CheckFailureProbabilityGT0
      else if \<not> failure_probability ransac_params < 1 then Inl CheckFailureProbabilityLT1
      else if \<not> reprojection_error_thresh ransac_params > 0 then Inl CheckReprojectionErrorThreshGT0
      else if \<not> min_iterations ransac_params \<ge> 0 then Inl CheckMinIterationsGE0
      else if \<not> max_iterations ransac_params > min_iterations ransac_params
        then Inl CheckMaxIterationsGTMin
      else Inr \<lparr> params_m = ransac_params,
                 prng_m = SeedPrng env (seed ransac_params),
                 correspondence_indices_m = [] \<rparr>)"

subsection \<open>Sampling\<close>

definition RandInt ::
  "('g, 'cam, 'dat, 'pri) collaborators \<Rightarrow> 'g GdlsStarRobustEstimator \<Rightarrow> int \<Rightarrow> int \<Rightarrow>
   error + int \<times> 'g GdlsStarRobustEstimator"
where
  "RandInt env this min_value max_value =
     (if max_value < min_value then Inl EmptyDistributionRange
      else (let (r, g') = UniformInt env (prng_m this) min_value max_value
            in Inr (r, this\<lparr>prng_m := g'\<rparr>)))"

text \<open>\<^verbatim>\<open>std::swap(v[a], v[b])\<close> on a vector, both positions in range.\<close>

definition swap :: "'a list \<Rightarrow> nat \<Rightarrow> nat \<Rightarrow> 'a list" where
  "swap v a b = v[a := v ! b, b := v ! a]"

text \<open>
  The loop of \<^verbatim>\<open>Sample\<close>, from position \<open>i\<close>: the state is the estimator (its index
  array and its generator) and the sample built so far.
\<close>

function Sample_loop ::
  "('g, 'cam, 'dat, 'pri) collaborators \<Rightarrow> 'cam CameraFeatureCorrespondence2D3D list \<Rightarrow> nat \<Rightarrow>
   'g GdlsStarRobustEstimator \<Rightarrow> 'cam CameraFeatureCorrespondence2D3D list \<Rightarrow>
   error + 'cam CameraFeatureCorrespondence2D3D list \<times> 'g GdlsStarRobustEstimator"
where
  "Sample_loop env correspondences i this sample =
     (if i < kMinimalSampleSize then
        (case RandInt env this (int i) (int (length correspondences) - 1) of
           Inl e \<Rightarrow> Inl e
         | Inr (r, this') \<Rightarrow>
             if in_range (correspondence_indices_m this') (int i) \<and>
                in_range (correspondence_indices_m this') r then
               (let indices' = swap (correspondence_indices_m this') i (nat r);
                    k = indices' ! i
                in if in_range correspondences k then
                     Sample_loop env correspondences (Suc i)
                       (this'\<lparr>correspondence_indices_m := indices'\<rparr>)
                       (sample @ [correspondences ! nat k])
                   else Inl IndexOutOfRange)
             else Inl IndexOutOfRange)
      else Inr (sample, this))"
  by pat_completeness auto
termination
  by (relation "measure (\<lambda>(env, correspondences, i, this, sample). kMinimalSampleSize - i)")
     auto

declare Sample_loop.simps [simp del]

definition Sample ::
  "('g, 'cam, 'dat, 'pri) collaborators \<Rightarrow> 'g GdlsStarRobustEstimator \<Rightarrow>
   'cam CameraFeatureCorrespondence2D3D list \<Rightarrow>
   error + 'cam CameraFeatureCorrespondence2D3D list \<times> 'g GdlsStarRobustEstimator"
where
  "Sample env this correspondences = Sample_loop env correspondences 0 this []"

subsection \<open>Scoring hypotheses\<close>

text \<open>
  The Eigen operations the scorer uses, on triples and pairs of reals. (Dividing by a
  scale of zero gives infinities or NaN in C++ and zero in HOL; the properties below do
  not depend on which correspondences such a hypothesis would make inliers.)
\<close>

definition cross :: "Vector3d \<Rightarrow> Vector3d \<Rightarrow> Vector3d" where
  "cross a b =
     (case a of (a1, a2, a3) \<Rightarrow> case b of (b1, b2, b3) \<Rightarrow>
        (a2 * b3 - a3 * b2, a3 * b1 - a1 * b3, a1 * b2 - a2 * b1))"

definition vec3_add :: "Vector3d \<Rightarrow> Vector3d \<Rightarrow> Vector3d" where
  "vec3_add a b = (case a of (a1, a2, a3) \<Rightarrow> case b of (b1, b2, b3) \<Rightarrow> (a1 + b1, a2 + b2, a3 + b3))"

definition vec3_scale :: "real \<Rightarrow> Vector3d \<Rightarrow> Vector3d" where
  "vec3_scale s a = (case a of (a1, a2, a3) \<Rightarrow> (s * a1, s * a2, s * a3))"

definition vec3_div :: "Vector3d \<Rightarrow> real \<Rightarrow> Vector3d" where
  "vec3_div a s = (case a of (a1, a2, a3) \<Rightarrow> (a1 / s, a2 / s, a3 / s))"

text \<open>
  \<^verbatim>\<open>rotation * point\<close>: Eigen rotates a vector \<open>v\<close> by a quaternion with scalar part \<open>w\<close>
  and vector part \<open>u\<close> as \<open>v + w * t + u \<times> t\<close> with \<open>t = 2 * (u \<times> v)\<close>.
\<close>

definition quat_rotate :: "Quaterniond \<Rightarrow> Vector3d \<Rightarrow> Vector3d" where
  "quat_rotate q v =
     (let u = (quat_x q, quat_y q, quat_z q);
          t = vec3_scale 2 (cross u v)
      in vec3_add (vec3_add v (vec3_scale (quat_w q) t)) (cross u t))"

definition squaredNorm_diff :: "Vector2d \<Rightarrow> Vector2d \<Rightarrow> real" where
  "squaredNorm_diff a b =
     (case a of (a1, a2) \<Rightarrow> case b of (b1, b2) \<Rightarrow> (a1 - b1) * (a1 - b1) + (a2 - b2) * (a2 - b2))"

text \<open>
  The inner loop of \<^verbatim>\<open>UpdateBestSolution\<close> over the correspondences, for one hypothesis:
  \<open>j\<close> is the index of the head of the list, \<open>inl\<close> the inliers pushed so far.
\<close>

fun inliers_loop ::
  "('g, 'cam, 'dat, 'pri) collaborators \<Rightarrow> real \<Rightarrow> Quaterniond \<Rightarrow> Vector3d \<Rightarrow> real \<Rightarrow>
   'cam CameraFeatureCorrespondence2D3D list \<Rightarrow> int \<Rightarrow> int list \<Rightarrow> int list"
where
  "inliers_loop env sq_thresh rotation translation scale [] j inl = inl"
| "inliers_loop env sq_thresh rotation translation scale (c # cs) j inl =
     (let point_in_gen_camera =
            vec3_div (vec3_add (quat_rotate rotation (point c)) translation) scale;
          (ret, pixel) = ProjectPoint env (camera c) point_in_gen_camera
      in if ret < 0 then inliers_loop env sq_thresh rotation translation scale cs (j + 1) inl
         else
           (let sq_reprojection_error = squaredNorm_diff pixel (observation c)
            in if sq_reprojection_error < sq_thresh
               then inliers_loop env sq_thresh rotation translation scale cs (j + 1) (inl @ [j])
               else inliers_loop env sq_thresh rotation translation scale cs (j + 1) inl))"

text \<open>The inliers of hypothesis \<open>i\<close> of \<open>estimated_solns\<close>.\<close>

definition hypothesis_inliers ::
  "('g, 'cam, 'dat, 'pri) collaborators \<Rightarrow> 'g GdlsStarRobustEstimator \<Rightarrow>
   'cam CameraFeatureCorrespondence2D3D list \<Rightarrow> Solution \<Rightarrow> nat \<Rightarrow> int list"
where
  "hypothesis_inliers env this correspondences estimated_solns i =
     inliers_loop env
       (reprojection_error_thresh (params_m this) * reprojection_error_thresh (params_m this))
       (rotations estimated_solns ! i) (translations_v estimated_solns ! i)
       (scales estimated_solns ! i) correspondences 0 []"

text \<open>The outer loop of \<^verbatim>\<open>UpdateBestSolution\<close> over the hypotheses, from hypothesis \<open>i\<close>.\<close>

function UpdateBestSolution_loop ::
  "('g, 'cam, 'dat, 'pri) collaborators \<Rightarrow> 'g GdlsStarRobustEstimator \<Rightarrow>
   'cam CameraFeatureCorrespondence2D3D list \<Rightarrow> Solution \<Rightarrow> nat \<Rightarrow>
   Solution \<Rightarrow> int list \<Rightarrow> real \<Rightarrow> error + real \<times> Solution \<times> int list"
where
  "UpdateBestSolution_loop env this correspondences estimated_solns i
       best_solution best_inliers best_inlier_ratio =
     (if i < length (rotations estimated_solns) then
        if i < length (translations_v estimated_solns) \<and> i < length (scales estimated_solns) then
          (let inl = hypothesis_inliers env this correspondences estimated_solns i
           in if length best_inliers < length inl then
                if rotations best_solution \<noteq> [] \<and> translations_v best_solution \<noteq> [] \<and>
                   scales best_solution \<noteq> [] then
                  UpdateBestSolution_loop env this correspondences estimated_solns (Suc i)
                    (best_solution
                       \<lparr> rotations := (rotations best_solution)[0 := rotations estimated_solns ! i],
                         translations_v :=
                           (translations_v best_solution)[0 := translations_v estimated_solns ! i],
                         scales := (scales best_solution)[0 := scales estimated_solns ! i] \<rparr>)
                    inl
                    (real (length inl) / real (length correspondences))
                else Inl IndexOutOfRange
              else UpdateBestSolution_loop env this correspondences estimated_solns (Suc i)
                     best_solution best_inliers best_inlier_ratio)
        else Inl IndexOutOfRange
      else Inr (best_inlier_ratio, best_solution, best_inliers))"
  by pat_completeness auto
termination
  by (relation "measure (\<lambda>(env, this, correspondences, estimated_solns, i, rest).
                   length (rotations estimated_solns) - i)")
     auto

declare UpdateBestSolution_loop.simps [simp del]

definition UpdateBestSolution ::
  "('g, 'cam, 'dat, 'pri) collaborators \<Rightarrow> 'g GdlsStarRobustEstimator \<Rightarrow>
   'cam CameraFeatureCorrespondence2D3D list \<Rightarrow> Solution \<Rightarrow> Solution \<Rightarrow> int list \<Rightarrow>
   error + real \<times> Solution \<times> int list"
where
  "UpdateBestSolution env this correspondences estimated_solns best_solution best_inliers =
     UpdateBestSolution_loop env this correspondences estimated_solns 0 best_solution best_inliers
       (real (length best_inliers) / real (length correspondences) + DBL_EPSILON)"

subsection \<open>The adaptive iteration bound\<close>

text \<open>
  \<^verbatim>\<open>std::log\<close> of a negative double is NaN, which the subtraction and the division
  propagate to the conversion; \<^verbatim>\<open>std::log(0.0)\<close> is minus infinity, and a finite
  \<open>log_failure_prob\<close> divided by it is zero.
\<close>

definition ComputeMaxIterations ::
  "('g, 'cam, 'dat, 'pri) collaborators \<Rightarrow> 'g GdlsStarRobustEstimator \<Rightarrow> real \<Rightarrow> real \<Rightarrow>
   error + int"
where
  "ComputeMaxIterations env this inlier_ratio log_failure_prob =
     (if \<not> inlier_ratio > 0 then Inl CheckInlierRatioGT0
      else if inlier_ratio = 1 then Inr (min_iterations (params_m this))
      else
        (let bad = 1 - inlier_ratio ^ kMinimalSampleSize;
             num_iterations =
               (if bad < 0 then static_cast_int (CastUndefined env) NotANumber
                else if bad = 0 then static_cast_int (CastUndefined env) (Number 0)
                else static_cast_int (CastUndefined env)
                       (Number (log_failure_prob / (ln bad - DBL_EPSILON))))
         in Inr (clamp num_iterations (min_iterations (params_m this))
                   (max_iterations (params_m this)))))"

subsection \<open>The hypothesise-and-test loop\<close>

record 'g estimate_state =
  st_this :: "'g GdlsStarRobustEstimator"
  st_hypotheses :: Solution
  st_best_solution :: Solution
  st_summary :: RansacSummary
  st_inlier_ratio :: real
  st_max_iterations :: int

text \<open>
  The bound of the loop's measure: the local \<^verbatim>\<open>max_iterations\<close> only ever takes its
  initial value or a value \<^verbatim>\<open>std::clamp\<close> returns.
\<close>

definition iteration_bound :: "'g estimate_state \<Rightarrow> int" where
  "iteration_bound st =
     max (st_max_iterations st)
       (max (min_iterations (params_m (st_this st))) (max_iterations (params_m (st_this st))))"

definition next_iteration :: "'g estimate_state \<Rightarrow> 'g estimate_state" where
  "next_iteration st =
     st\<lparr>st_summary := (st_summary st)\<lparr>num_iterations := num_iterations (st_summary st) + 1\<rparr>\<rparr>"

lemma clamp_le_max: "clamp v lo hi \<le> max lo hi"
  by (simp add: clamp_def)

lemma ComputeMaxIterations_le_max:
  "ComputeMaxIterations env this r l = Inr m \<Longrightarrow>
   m \<le> max (min_iterations (params_m this)) (max_iterations (params_m this))"
  by (auto simp: ComputeMaxIterations_def Let_def clamp_le_max split: if_splits)

lemma RandInt_params_m:
  "RandInt env this a b = Inr (r, this') \<Longrightarrow> params_m this' = params_m this"
  by (auto simp: RandInt_def split: if_splits prod.splits)

lemma Sample_loop_params_m:
  "Sample_loop env cs i this sample = Inr (s, this') \<Longrightarrow> params_m this' = params_m this"
proof (induction env cs i this sample rule: Sample_loop.induct)
  case (1 env cs i this sample)
  show ?case
  proof (cases "i < kMinimalSampleSize")
    case False
    with "1.prems" show ?thesis by (simp add: Sample_loop.simps)
  next
    case True
    from "1.prems" True obtain r this1 where
      r: "RandInt env this (int i) (int (length cs) - 1) = Inr (r, this1)"
      by (subst (asm) Sample_loop.simps) (auto split: sum.splits)
    from "1.prems" True r have rng:
      "in_range (correspondence_indices_m this1) (int i) \<and>
       in_range (correspondence_indices_m this1) r"
      by (subst (asm) Sample_loop.simps) (auto split: if_splits)
    define indices' where "indices' = swap (correspondence_indices_m this1) i (nat r)"
    from "1.prems" True r rng have k: "in_range cs (indices' ! i)"
      by (subst (asm) Sample_loop.simps) (auto simp: Let_def indices'_def split: if_splits)
    from "1.prems" True r rng k have rec:
      "Sample_loop env cs (Suc i) (this1\<lparr>correspondence_indices_m := indices'\<rparr>)
         (sample @ [cs ! nat (indices' ! i)]) = Inr (s, this')"
      by (subst (asm) Sample_loop.simps) (simp add: Let_def indices'_def)
    have "params_m this' = params_m (this1\<lparr>correspondence_indices_m := indices'\<rparr>)"
      using "1.IH" [OF True r _ rng indices'_def refl k rec] by simp
    with RandInt_params_m [OF r] show ?thesis by simp
  qed
qed

lemma Sample_params_m:
  "Sample env this cs = Inr (s, this') \<Longrightarrow> params_m this' = params_m this"
  unfolding Sample_def by (rule Sample_loop_params_m)

text \<open>
  The body of the loop of \<^verbatim>\<open>Estimate\<close>, with the increment of the \<^verbatim>\<open>for\<close> statement:
  draw a sample, build the solver's input, run the solver; when it fails \<^verbatim>\<open>continue\<close>
  (only the increment runs); otherwise count the hypotheses, update the best solution and
  recompute the local \<^verbatim>\<open>max_iterations\<close>.
\<close>

definition Estimate_iteration ::
  "('g, 'cam, 'dat, 'pri) collaborators \<Rightarrow> 'pri \<Rightarrow> 'cam CameraFeatureCorrespondence2D3D list \<Rightarrow>
   real \<Rightarrow> 'g estimate_state \<Rightarrow> error + 'g estimate_state"
where
  "Estimate_iteration env the_priors correspondences log_failure_prob st =
     (case Sample env (st_this st) correspondences of
        Inl e \<Rightarrow> Inl e
      | Inr (sample, this') \<Rightarrow>
          (let input = (ComputeInputDatum env sample)\<lparr>priors := the_priors\<rparr>;
               (ok, hypotheses') =
                  EstimateSimilarityTransformation env input (st_hypotheses st);
               st1 = st\<lparr>st_this := this', st_hypotheses := hypotheses'\<rparr>
           in if \<not> ok then Inr (next_iteration st1)
              else
                (let summary1 = (st_summary st1)
                       \<lparr>num_hypotheses := num_hypotheses (st_summary st1) +
                                            int (length (rotations hypotheses'))\<rparr>
                 in case UpdateBestSolution env this' correspondences hypotheses'
                           (st_best_solution st1) (inliers summary1) of
                      Inl e \<Rightarrow> Inl e
                    | Inr (ratio, best', inliers') \<Rightarrow>
                        (case ComputeMaxIterations env this' ratio log_failure_prob of
                           Inl e \<Rightarrow> Inl e
                         | Inr m \<Rightarrow>
                             Inr (next_iteration
                                    (st1\<lparr>st_best_solution := best',
                                         st_summary := summary1\<lparr>inliers := inliers'\<rparr>,
                                         st_inlier_ratio := ratio,
                                         st_max_iterations := m\<rparr>))))))"

lemma Estimate_iteration_measure:
  assumes "Estimate_iteration env the_priors correspondences log_failure_prob st = Inr st'"
  shows "iteration_bound st' \<le> iteration_bound st \<and>
         num_iterations (st_summary st') = num_iterations (st_summary st) + 1"
proof -
  from assms obtain sample this' where
    s: "Sample env (st_this st) correspondences = Inr (sample, this')"
    by (auto simp: Estimate_iteration_def split: sum.splits)
  have p: "params_m this' = params_m (st_this st)" using s by (rule Sample_params_m)
  from assms s p show ?thesis
    by (auto simp: Estimate_iteration_def Let_def iteration_bound_def next_iteration_def
             split: sum.splits prod.splits if_splits
             dest!: ComputeMaxIterations_le_max)
qed

function Estimate_loop ::
  "('g, 'cam, 'dat, 'pri) collaborators \<Rightarrow> 'pri \<Rightarrow> 'cam CameraFeatureCorrespondence2D3D list \<Rightarrow>
   real \<Rightarrow> 'g estimate_state \<Rightarrow> error + 'g estimate_state"
where
  "Estimate_loop env the_priors correspondences log_failure_prob st =
     (if num_iterations (st_summary st) < st_max_iterations st then
        (case Estimate_iteration env the_priors correspondences log_failure_prob st of
           Inl e \<Rightarrow> Inl e
         | Inr st' \<Rightarrow> Estimate_loop env the_priors correspondences log_failure_prob st')
      else Inr st)"
  by pat_completeness auto
termination
proof (relation "measure (\<lambda>(env, the_priors, correspondences, log_failure_prob, st).
                   nat (iteration_bound st - num_iterations (st_summary st)))", goal_cases)
  case 1
  show ?case by simp
next
  case (2 env the_priors correspondences log_failure_prob st st')
  from Estimate_iteration_measure [OF 2(2)] 2(1)
  have "iteration_bound st' \<le> iteration_bound st"
    and "num_iterations (st_summary st') = num_iterations (st_summary st) + 1"
    and "num_iterations (st_summary st) < iteration_bound st"
    by (simp_all add: iteration_bound_def)
  then show ?case by simp
qed

declare Estimate_loop.simps [simp del]

text \<open>
  The state in which \<^verbatim>\<open>Estimate\<close> enters its loop: the summary's inliers cleared, the
  index array reset to \<open>0, 1, ..., n - 1\<close>, no hypotheses, the identity as best solution,
  \<open>inlier_ratio = 0\<close>, the iteration counter at zero and the local \<^verbatim>\<open>max_iterations\<close>
  at the parameter's value. (The source clears the inliers before it checks the number of
  correspondences; a failed check aborts the process, so the order is not observable.)
\<close>

definition Estimate_init ::
  "'g GdlsStarRobustEstimator \<Rightarrow> 'cam CameraFeatureCorrespondence2D3D list \<Rightarrow> RansacSummary \<Rightarrow>
   'g estimate_state"
where
  "Estimate_init this correspondences summary0 =
     (let summary = summary0\<lparr>inliers := []\<rparr>;
          this1 = this\<lparr>correspondence_indices_m := map int [0..<length correspondences]\<rparr>
      in \<lparr> st_this = this1,
           st_hypotheses = \<lparr>rotations = [], translations_v = [], scales = []\<rparr>,
           st_best_solution =
             \<lparr>rotations = [Quaternion 1 0 0 0], translations_v = [(0, 0, 0)], scales = [1]\<rparr>,
           st_summary = summary\<lparr>num_iterations := 0\<rparr>,
           st_inlier_ratio = 0,
           st_max_iterations = max_iterations (params_m this1) \<rparr>)"

text \<open>
  The confidence \<^verbatim>\<open>Estimate\<close> computes after the loop,
  \<^verbatim>\<open>1.0 - std::pow(1.0 - std::pow(inlier_ratio, kMinimalSampleSize), num_iterations)\<close>,
  for the inlier ratio \<open>r\<close> and \<open>n\<close> iterations.
\<close>

definition confidence_formula :: "real \<Rightarrow> nat \<Rightarrow> real" where
  "confidence_formula r n =
     double_minus 1 (double_pow (double_minus 1 (double_pow r kMinimalSampleSize)) n)"

definition final_confidence :: "'g estimate_state \<Rightarrow> real" where
  "final_confidence st =
     confidence_formula (st_inlier_ratio st) (nat (num_iterations (st_summary st)))"

definition Estimate ::
  "('g, 'cam, 'dat, 'pri) collaborators \<Rightarrow> 'g GdlsStarRobustEstimator \<Rightarrow> 'pri \<Rightarrow>
   'cam CameraFeatureCorrespondence2D3D list \<Rightarrow> RansacSummary option \<Rightarrow>
   error + Solution \<times> RansacSummary \<times> 'g GdlsStarRobustEstimator"
where
  "Estimate env this the_priors correspondences ransac_summary =
     (case ransac_summary of
        None \<Rightarrow> Inl CheckSummaryNotNull
      | Some summary0 \<Rightarrow>
          if \<not> length correspondences \<ge> kMinimalSampleSize
          then Inl CheckEnoughCorrespondences
          else
            (let log_failure_prob = ln (failure_probability (params_m this))
             in case Estimate_loop env the_priors correspondences log_failure_prob
                       (Estimate_init this correspondences summary0) of
                  Inl e \<Rightarrow> Inl e
                | Inr st \<Rightarrow>
                    Inr (st_best_solution st,
                         (st_summary st)\<lparr>confidence := final_confidence st\<rparr>,
                         st_this st)))"

subsection \<open>Conditions the claims speak of\<close>

text \<open>The constraints on the parameters, as the specification lists them.\<close>

definition valid_params :: "RansacParameters \<Rightarrow> bool" where
  "valid_params p =
     (0 < failure_probability p \<and> failure_probability p < 1 \<and>
      0 < reprojection_error_thresh p \<and> 0 \<le> min_iterations p \<and>
      min_iterations p < max_iterations p)"

text \<open>
  What the C++ standard promises of \<^verbatim>\<open>std::uniform_int_distribution<int>(a, b)\<close>: with
  \<open>a \<le> b\<close>, a value in the closed range.
\<close>

definition uniform_int_contract :: "('g, 'cam, 'dat, 'pri) collaborators \<Rightarrow> bool" where
  "uniform_int_contract env =
     (\<forall>g a b. a \<le> b \<longrightarrow> a \<le> fst (UniformInt env g a b) \<and> fst (UniformInt env g a b) \<le> b)"

text \<open>The index array holds every index below \<open>n\<close> exactly once.\<close>

definition is_permutation :: "int list \<Rightarrow> nat \<Rightarrow> bool" where
  "is_permutation indices n = (mset indices = mset (map int [0..<n]))"

text \<open>
  The invariant of a \<open>Solution\<close> (its three sequences have equal length), and the best
  solution's (it holds a hypothesis at position 0).
\<close>

definition well_formed_Solution :: "Solution \<Rightarrow> bool" where
  "well_formed_Solution sol =
     (length (translations_v sol) = length (rotations sol) \<and>
      length (scales sol) = length (rotations sol))"

definition holds_a_hypothesis :: "Solution \<Rightarrow> bool" where
  "holds_a_hypothesis sol =
     (rotations sol \<noteq> [] \<and> translations_v sol \<noteq> [] \<and> scales sol \<noteq> [])"





subsection \<open>Collaborators to run the model on\<close>

text \<open>
  Simple stand-ins for the code outside this file, used where a theorem is evaluated on
  a concrete input: a generator that counts its draws, an ideal pinhole camera with
  identity intrinsics, a solver that always answers with the identity transform, and the
  conversion of x86-64 (\<^verbatim>\<open>cvttsd2si\<close> yields \<^verbatim>\<open>INT_MIN\<close> for every double it cannot
  convert).
\<close>

definition counter_UniformInt :: "nat \<Rightarrow> int \<Rightarrow> int \<Rightarrow> int \<times> nat" where
  "counter_UniformInt g a b = (a + int g mod (b - a + 1), Suc g)"

definition pinhole_ProjectPoint :: "unit \<Rightarrow> Vector3d \<Rightarrow> real \<times> Vector2d" where
  "pinhole_ProjectPoint cam p =
     (case p of (px, py, pz) \<Rightarrow> if pz \<le> 0 then (- 1, (0, 0)) else (pz, (px / pz, py / pz)))"

definition identity_Solution :: Solution where
  "identity_Solution =
     \<lparr>rotations = [Quaternion 1 0 0 0], translations_v = [(0, 0, 0)], scales = [1]\<rparr>"

definition test_env ::
  "(nat, unit, unit CameraFeatureCorrespondence2D3D list, unit) collaborators" where
  "test_env =
     \<lparr> SeedPrng = (\<lambda>s. s),
       UniformInt = counter_UniformInt,
       ProjectPoint = pinhole_ProjectPoint,
       ComputeInputDatum = (\<lambda>sample. \<lparr>datum = sample, priors = ()\<rparr>),
       EstimateSimilarityTransformation = (\<lambda>input hypotheses. (True, identity_Solution)),
       CastUndefined = (\<lambda>a. INT_MIN) \<rparr>"

text \<open>The point \<open>(k, 0, 1)\<close>, seen at pixel \<open>(k + d, 0)\<close>.\<close>

definition test_correspondence :: "real \<Rightarrow> real \<Rightarrow> unit CameraFeatureCorrespondence2D3D" where
  "test_correspondence k d = \<lparr>point = (k, 0, 1), observation = (k + d, 0), camera = ()\<rparr>"

definition test_correspondences :: "real \<Rightarrow> unit CameraFeatureCorrespondence2D3D list" where
  "test_correspondences d =
     [test_correspondence 0 d, test_correspondence 1 d, test_correspondence 2 d,
      test_correspondence 3 d, test_correspondence 4 d]"

definition test_params :: RansacParameters where
  "test_params =
     \<lparr> failure_probability = 1 / 100, reprojection_error_thresh = 2,
       min_iterations = 0, max_iterations = 3, seed = 0 \<rparr>"

definition test_estimator :: "nat GdlsStarRobustEstimator" where
  "test_estimator = \<lparr>params_m = test_params, prng_m = 0, correspondence_indices_m = []\<rparr>"

definition fresh_summary :: RansacSummary where
  "fresh_summary = \<lparr>inliers = [], num_iterations = 0, num_hypotheses = 0, confidence = 0\<rparr>"

text \<open>
  A second solver, whose answer depends on the sample: the identity moved along the first
  axis by minus the first coordinate of the first sampled point. With the threshold 10
  every correspondence is an inlier of each of its hypotheses.
\<close>

definition translated_Solution :: "real \<Rightarrow> Solution" where
  "translated_Solution t =
     \<lparr>rotations = [Quaternion 1 0 0 0], translations_v = [(t, 0, 0)], scales = [1]\<rparr>"

definition first_point_solver ::
  "(unit CameraFeatureCorrespondence2D3D list, unit) Input \<Rightarrow> Solution \<Rightarrow> bool \<times> Solution" where
  "first_point_solver input hypotheses =
     (case datum input of
        [] \<Rightarrow> (False, hypotheses)
      | c # rest \<Rightarrow> (True, translated_Solution (- fst (point c))))"

definition shifting_env ::
  "(nat, unit, unit CameraFeatureCorrespondence2D3D list, unit) collaborators" where
  "shifting_env = test_env\<lparr>EstimateSimilarityTransformation := first_point_solver\<rparr>"

definition wide_estimator :: "nat GdlsStarRobustEstimator" where
  "wide_estimator =
     \<lparr>params_m = test_params\<lparr>reprojection_error_thresh := 10\<rparr>, prng_m = 0,
      correspondence_indices_m = []\<rparr>"

text \<open>
  The state with the summary's hypothesis counter moved by \<open>d\<close> and its confidence set to
  \<open>c\<close>: the two fields of the summary that the loop never reads.
\<close>

definition with_summary_counts :: "int \<Rightarrow> real \<Rightarrow> 'g estimate_state \<Rightarrow> 'g estimate_state" where
  "with_summary_counts d c st =
     st\<lparr>st_summary := (st_summary st)
          \<lparr>num_hypotheses := num_hypotheses (st_summary st) + d, confidence := c\<rparr>\<rparr>"



text \<open>An estimator that runs at least two iterations.\<close>

definition patient_estimator :: "nat GdlsStarRobustEstimator" where
  "patient_estimator =
     \<lparr>params_m = test_params\<lparr>min_iterations := 2\<rparr>, prng_m = 0,
      correspondence_indices_m = []\<rparr>"


text \<open>
  What the loop keeps of the inlier ratio: it lies in \<open>[0, 1 + epsilon]\<close>, there are no
  more inliers than correspondences, inliers are only found by an iteration, and a ratio
  above one comes from an iteration that did not improve on inliers found before it.
\<close>

definition ratio_invariant :: "nat \<Rightarrow> 'g estimate_state \<Rightarrow> bool" where
  "ratio_invariant n st =
     (0 \<le> st_inlier_ratio st \<and> st_inlier_ratio st \<le> 1 + DBL_EPSILON \<and>
      length (inliers (st_summary st)) \<le> n \<and>
      0 \<le> num_iterations (st_summary st) \<and>
      (inliers (st_summary st) \<noteq> [] \<longrightarrow> 1 \<le> num_iterations (st_summary st)) \<and>
      (1 < st_inlier_ratio st \<longrightarrow> 2 \<le> num_iterations (st_summary st)))"

section \<open>Properties\<close>

subsection \<open>Rounding to the nearest double\<close>

lemma DBL_EPSILON_pos: "0 < DBL_EPSILON"
  by (simp add: DBL_EPSILON_def)

lemma round_half_even_le: "z \<le> of_int k \<Longrightarrow> round_half_even z \<le> k"
proof -
  assume a: "z \<le> of_int k"
  then have f: "\<lfloor>z\<rfloor> \<le> k" by (simp add: floor_le_iff)
  show ?thesis
  proof (cases "\<lfloor>z\<rfloor> = k")
    case True
    with a have "z = of_int \<lfloor>z\<rfloor>" by (metis of_int_floor_le order_antisym)
    then have "z - of_int \<lfloor>z\<rfloor> = 0" by simp
    then show ?thesis using True by (simp add: round_half_even_def Let_def)
  next
    case False
    with f have "\<lfloor>z\<rfloor> + 1 \<le> k" by simp
    then show ?thesis by (simp add: round_half_even_def Let_def)
  qed
qed

lemma round_half_even_ge: "of_int k \<le> z \<Longrightarrow> k \<le> round_half_even z"
proof -
  assume "of_int k \<le> z"
  then have "k \<le> \<lfloor>z\<rfloor>" by (simp add: le_floor_iff)
  then show ?thesis by (simp add: round_half_even_def Let_def)
qed

lemma round_half_even_near: "\<bar>of_int (round_half_even z) - z\<bar> \<le> 1 / 2"
proof -
  have "of_int \<lfloor>z\<rfloor> \<le> z" "z < of_int \<lfloor>z\<rfloor> + 1" by linarith+
  then show ?thesis by (auto simp: round_half_even_def Let_def)
qed

lemma double_ulp_pos: "0 < double_ulp x"
  by (simp add: double_ulp_def)

lemma two_powr_int: "0 \<le> m \<Longrightarrow> (2::real) powr of_int m = of_int (2 ^ nat m)"
proof -
  assume "0 \<le> m"
  then have "(2::real) powr of_int m = 2 powr real (nat m)" by simp
  also have "\<dots> = 2 ^ nat m" by (simp add: powr_realpow)
  finally show ?thesis by simp
qed

lemma double_exponent_le:
  assumes "x \<noteq> 0" and "\<bar>x\<bar> \<le> 2 powr of_int k" and "- 1022 \<le> k"
  shows "double_exponent x \<le> k"
proof -
  from assms(1) have pos: "0 < \<bar>x\<bar>" by simp
  have "log 2 \<bar>x\<bar> \<le> of_int k" using assms(2) pos by (simp add: log_le_iff)
  then have "\<lfloor>log 2 \<bar>x\<bar>\<rfloor> \<le> k" by (simp add: floor_le_iff)
  with assms(3) show ?thesis by (simp add: double_exponent_def)
qed

lemma round_double_bound:
  assumes "\<bar>x\<bar> \<le> 2 powr of_int k" and "- 1022 \<le> k"
  shows "\<bar>round_double x\<bar> \<le> 2 powr of_int k \<and>
         (0 \<le> x \<longrightarrow> 0 \<le> round_double x) \<and> (x \<le> 0 \<longrightarrow> round_double x \<le> 0)"
proof (cases "x = 0")
  case True
  then show ?thesis by (simp add: round_double_def)
next
  case False
  let ?u = "double_ulp x"
  let ?r = "round_half_even (x / ?u)"
  define K :: int where "K = 2 ^ nat (k - double_exponent x + 52)"
  have e: "double_exponent x \<le> k" using False assms by (rule double_exponent_le)
  have u: "0 < ?u" by (rule double_ulp_pos)
  have uK: "?u * of_int K = 2 powr of_int k"
  proof -
    have "of_int K = (2::real) powr of_int (k - double_exponent x + 52)"
      unfolding K_def using e by (subst two_powr_int) simp_all
    then have "?u * of_int K =
        2 powr of_int (double_exponent x - 52) * 2 powr of_int (k - double_exponent x + 52)"
      by (simp add: double_ulp_def)
    also have "\<dots> = 2 powr (of_int (double_exponent x - 52) + of_int (k - double_exponent x + 52))"
      by (simp only: powr_add)
    also have "\<dots> = 2 powr of_int k" by simp
    finally show ?thesis .
  qed
  have up: "x / ?u \<le> of_int K"
  proof -
    have "x \<le> ?u * of_int K" using assms(1) uK by linarith
    then show ?thesis using u by (simp add: pos_divide_le_eq mult.commute)
  qed
  have lo: "of_int (- K) \<le> x / ?u"
  proof -
    have "- (?u * of_int K) \<le> x" using assms(1) uK by linarith
    then show ?thesis using u by (simp add: pos_le_divide_eq mult.commute)
  qed
  have r1: "?r \<le> K" using up by (rule round_half_even_le)
  have r2: "- K \<le> ?r" using lo by (rule round_half_even_ge)
  have rd: "round_double x = ?u * of_int ?r" using False by (simp add: round_double_def)
  have "\<bar>(of_int ?r :: real)\<bar> \<le> of_int K" using r1 r2 by linarith
  then have "?u * \<bar>(of_int ?r :: real)\<bar> \<le> ?u * of_int K"
    using u by (simp add: mult_left_mono)
  then have b: "\<bar>round_double x\<bar> \<le> 2 powr of_int k"
    using u uK by (simp add: rd abs_mult)
  have s1: "0 \<le> round_double x" if "0 \<le> x"
  proof -
    from that u have "of_int 0 \<le> x / ?u" by simp
    then have "0 \<le> ?r" by (rule round_half_even_ge)
    then show ?thesis using u by (simp add: rd)
  qed
  have s2: "round_double x \<le> 0" if "x \<le> 0"
  proof -
    from that u have "x / ?u \<le> of_int 0" by (simp add: divide_nonpos_pos)
    then have "?r \<le> 0" by (rule round_half_even_le)
    then show ?thesis using u by (simp add: rd mult_nonneg_nonpos)
  qed
  from b s1 s2 show ?thesis by blast
qed

lemma double_ulp_binade_one:
  assumes "1 \<le> x" and "x < 2"
  shows "double_ulp x = DBL_EPSILON"
proof -
  have "\<lfloor>log 2 \<bar>x\<bar>\<rfloor> = 0" using assms by (subst floor_log_eq_powr_iff) simp_all
  then have "double_exponent x = 0" by (simp add: double_exponent_def)
  then have "double_ulp x = 2 powr (- 52)" by (simp add: double_ulp_def)
  also have "\<dots> = 1 / 2 ^ 52" by (simp add: powr_minus inverse_eq_divide)
  finally show ?thesis by (simp add: DBL_EPSILON_def)
qed

lemma round_double_near_one:
  assumes "1 \<le> x" and "x < 1 + DBL_EPSILON / 2"
  shows "round_double x = 1"
proof -
  have x2: "x < 2" using assms(2) by (simp add: DBL_EPSILON_def)
  have u: "double_ulp x = DBL_EPSILON" using assms(1) x2 by (rule double_ulp_binade_one)
  let ?z = "x / DBL_EPSILON"
  have z: "?z = x * 2 ^ 52" by (simp add: DBL_EPSILON_def)
  have z1: "2 ^ 52 \<le> ?z" using assms(1) by (simp add: z)
  have z2: "?z < 2 ^ 52 + 1 / 2" using assms(2) by (simp add: z DBL_EPSILON_def)
  define Z where "Z = ?z"
  have Z1: "2 ^ 52 \<le> Z" and Z2: "Z < 2 ^ 52 + 1 / 2" using z1 z2 by (simp_all only: Z_def)
  have "of_int (2 ^ 52) \<le> Z" and "Z < of_int (2 ^ 52) + 1" using Z1 Z2 by simp_all
  then have f: "\<lfloor>Z\<rfloor> = 2 ^ 52" by (rule floor_unique)
  have "Z - of_int \<lfloor>Z\<rfloor> < 1 / 2" using Z2 by (simp add: f)
  then have "round_half_even Z = 2 ^ 52"
    by (simp add: round_half_even_def Let_def f)
  then have "round_half_even ?z = 2 ^ 52" by (simp only: Z_def)
  then show ?thesis using assms(1) by (simp add: round_double_def u DBL_EPSILON_def)
qed

lemma round_double_binade_one:
  assumes "1 \<le> x" and "x < 2"
  shows "\<bar>round_double x - x\<bar> \<le> DBL_EPSILON / 2"
proof -
  have u: "double_ulp x = DBL_EPSILON" using assms by (rule double_ulp_binade_one)
  let ?z = "x / DBL_EPSILON"
  have "round_double x - x = DBL_EPSILON * (of_int (round_half_even ?z) - ?z)"
    using assms(1) DBL_EPSILON_pos by (simp add: round_double_def u right_diff_distrib)
  then have "\<bar>round_double x - x\<bar> = DBL_EPSILON * \<bar>of_int (round_half_even ?z) - ?z\<bar>"
    using DBL_EPSILON_pos by (simp add: abs_mult)
  also have "\<dots> \<le> DBL_EPSILON * (1 / 2)"
    using DBL_EPSILON_pos round_half_even_near [of ?z] by (intro mult_left_mono) simp_all
  finally show ?thesis by simp
qed

lemma round_double_zero [simp]: "round_double 0 = 0"
  by (simp add: round_double_def)

lemma round_double_one [simp]: "round_double 1 = 1"
  by (rule round_double_near_one) (simp_all add: DBL_EPSILON_def)

lemma round_double_unit:
  assumes "0 \<le> x" and "x \<le> 1"
  shows "0 \<le> round_double x \<and> round_double x \<le> 1"
proof -
  have "\<bar>x\<bar> \<le> 2 powr of_int 0" using assms by simp
  from round_double_bound [OF this] assms(1) show ?thesis by auto
qed

lemma two_powr_neg: "(2::real) powr of_int (- int n) = 1 / 2 ^ n"
proof -
  have "(2::real) powr of_int (- int n) = 2 powr (- real n)" by simp
  also have "\<dots> = 1 / 2 powr real n" by (simp only: powr_minus_divide)
  also have "\<dots> = 1 / 2 ^ n" by (simp add: powr_realpow)
  finally show ?thesis .
qed

lemma round_double_small:
  assumes "\<bar>x\<bar> \<le> 1 / 2 ^ n" and "n \<le> 1022"
  shows "\<bar>round_double x\<bar> \<le> 1 / 2 ^ n"
proof -
  have "\<bar>x\<bar> \<le> 2 powr of_int (- int n)" using assms(1) by (simp only: two_powr_neg)
  moreover have "- 1022 \<le> - int n" using assms(2) by simp
  ultimately have "\<bar>round_double x\<bar> \<le> 2 powr of_int (- int n)"
    using round_double_bound by blast
  then show ?thesis by (simp only: two_powr_neg)
qed

lemma round_double_below_one:
  assumes "1 - 1 / 2 ^ 54 \<le> x" and "x < 1"
  shows "round_double x = 1"
proof -
  have x0: "x \<noteq> 0" "0 < \<bar>x\<bar>" "\<bar>x\<bar> = x" using assms(1) by simp_all
  have "\<lfloor>log 2 \<bar>x\<bar>\<rfloor> = - 1"
  proof (subst floor_log_eq_powr_iff)
    show "0 < \<bar>x\<bar>" by (rule x0)
    show "(1::real) < 2" by simp
    have "(2::real) powr of_int (- 1) = 1 / 2" using two_powr_neg [of 1] by simp
    moreover have "1 / 2 \<le> x" using assms(1) by simp
    ultimately show "2 powr of_int (- 1) \<le> \<bar>x\<bar> \<and> \<bar>x\<bar> < 2 powr of_int (- 1 + 1)"
      using assms(2) x0 by simp
  qed
  then have "double_exponent x = - 1" by (simp add: double_exponent_def)
  then have "double_ulp x = 2 powr of_int (- int 53)" by (simp add: double_ulp_def)
  then have u: "double_ulp x = 1 / 2 ^ 53" by (simp only: two_powr_neg)
  define Z where "Z = x * 2 ^ 53"
  have z: "x / double_ulp x = Z" by (simp add: u Z_def)
  have Z1: "2 ^ 53 - 1 / 2 \<le> Z" using assms(1) by (simp add: Z_def)
  have Z2: "Z < 2 ^ 53" using assms(2) by (simp add: Z_def)
  have "of_int (2 ^ 53 - 1) \<le> Z" and "Z < of_int (2 ^ 53 - 1) + 1" using Z1 Z2 by simp_all
  then have f: "\<lfloor>Z\<rfloor> = 2 ^ 53 - 1" by (rule floor_unique)
  have "1 / 2 \<le> Z - of_int \<lfloor>Z\<rfloor>" using Z1 by (simp add: f)
  then have "round_half_even Z = 2 ^ 53"
    by (simp add: round_half_even_def Let_def f)
  then have "round_half_even (x / double_ulp x) = 2 ^ 53" by (simp only: z)
  then have "round_double x = double_ulp x * of_int (2 ^ 53)"
    using x0 by (simp only: round_double_def if_False)
  then show ?thesis by (simp add: u)
qed

text \<open>
  The confidence for a ratio in \<open>[0, 1]\<close>: every intermediate value stays in \<open>[0, 1]\<close>,
  whose ends are doubles.
\<close>

lemma confidence_formula_unit:
  assumes "0 \<le> r" and "r \<le> 1"
  shows "0 \<le> confidence_formula r n \<and> confidence_formula r n \<le> 1"
proof -
  define p where "p = double_pow r kMinimalSampleSize"
  define a where "a = double_minus 1 p"
  define q where "q = double_pow a n"
  have "0 \<le> r ^ kMinimalSampleSize \<and> r ^ kMinimalSampleSize \<le> 1"
    using assms by (simp add: power_le_one)
  then have p: "0 \<le> p \<and> p \<le> 1" unfolding p_def double_pow_def
    using round_double_unit by blast
  then have "0 \<le> 1 - p \<and> 1 - p \<le> 1" by simp
  then have a: "0 \<le> a \<and> a \<le> 1" unfolding a_def double_minus_def
    using round_double_unit by blast
  then have "0 \<le> a ^ n \<and> a ^ n \<le> 1" by (simp add: power_le_one)
  then have q: "0 \<le> q \<and> q \<le> 1" unfolding q_def double_pow_def
    using round_double_unit by blast
  then have "0 \<le> 1 - q \<and> 1 - q \<le> 1" by simp
  then have "0 \<le> double_minus 1 q \<and> double_minus 1 q \<le> 1" unfolding double_minus_def
    using round_double_unit by blast
  then show ?thesis by (simp add: confidence_formula_def p_def a_def q_def)
qed

text \<open>
  For a ratio just above one the inner difference is a few units in the last place of
  \<open>1\<close>; from the second power on it is far below half a unit, and the outer subtraction
  rounds to \<open>1\<close>.
\<close>

lemma confidence_formula_above_one:
  assumes "1 < r" and "r \<le> 1 + DBL_EPSILON" and "2 \<le> n"
  shows "confidence_formula r n = 1"
proof -
  define p where "p = double_pow r kMinimalSampleSize"
  define a where "a = double_minus 1 p"
  define q where "q = double_pow a n"
  have r1: "1 \<le> r ^ 4" using assms(1) by (simp add: one_le_power)
  have "r ^ 4 \<le> (1 + DBL_EPSILON) ^ 4" using assms(1,2) by (intro power_mono) simp_all
  also have "\<dots> \<le> 1 + 5 * DBL_EPSILON" by (simp add: DBL_EPSILON_def field_simps)
  finally have r2: "r ^ 4 \<le> 1 + 5 * DBL_EPSILON" .
  then have "r ^ 4 < 2" by (simp add: DBL_EPSILON_def)
  with r1 have "\<bar>round_double (r ^ 4) - r ^ 4\<bar> \<le> DBL_EPSILON / 2"
    by (rule round_double_binade_one)
  then have "\<bar>1 - round_double (r ^ 4)\<bar> \<le> 6 * DBL_EPSILON"
    using r1 r2 DBL_EPSILON_pos by linarith
  then have "\<bar>1 - p\<bar> \<le> 6 * DBL_EPSILON"
    by (simp add: p_def double_pow_def kMinimalSampleSize_def)
  also have "\<dots> \<le> 1 / 2 ^ 49" by (simp add: DBL_EPSILON_def)
  finally have "\<bar>a\<bar> \<le> 1 / 2 ^ 49" unfolding a_def double_minus_def
    by (rule round_double_small) simp
  then have a1: "\<bar>a\<bar> \<le> 1 / 2 ^ 49" and a2: "\<bar>a\<bar> \<le> 1" by simp_all
  have "\<bar>a ^ n\<bar> = \<bar>a\<bar> ^ n" by (simp add: power_abs)
  also have "\<dots> \<le> \<bar>a\<bar> ^ 2" using assms(3) a2 by (intro power_decreasing) simp_all
  also have "\<dots> \<le> (1 / 2 ^ 49) ^ 2" using a1 by (intro power_mono) simp_all
  also have "\<dots> = 1 / 2 ^ 98" by (simp add: power_divide)
  finally have "\<bar>q\<bar> \<le> 1 / 2 ^ 98" unfolding q_def double_pow_def
    by (rule round_double_small) simp
  then have q1: "1 - q < 1 + DBL_EPSILON / 2" and q2: "1 - 1 / 2 ^ 54 \<le> 1 - q"
    by (simp_all add: DBL_EPSILON_def)
  have "round_double (1 - q) = 1"
  proof (cases "1 \<le> 1 - q")
    case True
    then show ?thesis using q1 by (rule round_double_near_one)
  next
    case False
    with q2 show ?thesis by (intro round_double_below_one) simp_all
  qed
  then show ?thesis by (simp add: confidence_formula_def double_minus_def p_def a_def q_def)
qed

lemma confidence_formula_bounds:
  assumes "0 \<le> r" and "r \<le> 1 + DBL_EPSILON" and "1 < r \<longrightarrow> 2 \<le> n"
  shows "0 \<le> confidence_formula r n \<and> confidence_formula r n \<le> 1"
proof (cases "1 < r")
  case True
  with assms have "confidence_formula r n = 1" by (intro confidence_formula_above_one) simp_all
  then show ?thesis by simp
next
  case False
  with assms(1) show ?thesis by (intro confidence_formula_unit) simp_all
qed

lemma confidence_formula_one: "0 < n \<Longrightarrow> confidence_formula 1 n = 1"
  by (simp add: confidence_formula_def double_minus_def double_pow_def power_0_left)

text \<open>
  For a ratio whose fourth power is at most \<open>2 ^ -54\<close> the inner subtraction rounds to
  \<open>1\<close>, and the confidence is \<open>0\<close>.
\<close>

lemma confidence_formula_small:
  assumes "0 \<le> r" and "r ^ kMinimalSampleSize \<le> 1 / 2 ^ 54"
  shows "confidence_formula r n = 0"
proof -
  define p where "p = double_pow r kMinimalSampleSize"
  have r0: "0 \<le> r ^ kMinimalSampleSize" using assms(1) by simp
  then have "\<bar>r ^ kMinimalSampleSize\<bar> \<le> 1 / 2 ^ 54" using assms(2) by simp
  then have p1: "\<bar>p\<bar> \<le> 1 / 2 ^ 54" unfolding p_def double_pow_def
    by (rule round_double_small) simp
  have "\<bar>r ^ kMinimalSampleSize\<bar> \<le> 2 powr of_int 0" using r0 assms(2)
    by (simp add: order_trans [OF assms(2)])
  from round_double_bound [OF this] r0 have p0: "0 \<le> p"
    by (simp add: p_def double_pow_def)
  have "round_double (1 - p) = 1"
  proof (cases "p = 0")
    case True
    then show ?thesis by simp
  next
    case False
    with p0 p1 show ?thesis by (intro round_double_below_one) simp_all
  qed
  then show ?thesis
    by (simp add: confidence_formula_def double_minus_def double_pow_def p_def)
qed

subsection \<open>Sampling\<close>

lemma Sample_loop_step:
  assumes "i < kMinimalSampleSize"
    and "Sample_loop env cs i this sample = Inr (s, this'')"
  obtains r this1 where
    "RandInt env this (int i) (int (length cs) - 1) = Inr (r, this1)"
    "in_range (correspondence_indices_m this1) (int i)"
    "in_range (correspondence_indices_m this1) r"
    "in_range cs (swap (correspondence_indices_m this1) i (nat r) ! i)"
    "Sample_loop env cs (Suc i)
       (this1\<lparr>correspondence_indices_m := swap (correspondence_indices_m this1) i (nat r)\<rparr>)
       (sample @ [cs ! nat (swap (correspondence_indices_m this1) i (nat r) ! i)]) = Inr (s, this'')"
  using assms
  by (subst (asm) Sample_loop.simps) (auto simp: Let_def split: sum.splits if_splits)

lemma RandInt_indices:
  "RandInt env this a b = Inr (r, this') \<Longrightarrow>
   correspondence_indices_m this' = correspondence_indices_m this"
  by (auto simp: RandInt_def split: if_splits prod.splits)

lemma mset_swap_indices:
  "a < length v \<Longrightarrow> b < length v \<Longrightarrow> mset (swap v a b) = mset v"
  unfolding swap_def by (rule mset_swap)

lemma length_swap [simp]: "length (swap v a b) = length v"
  by (simp add: swap_def)

lemma RandInt_bounds:
  "uniform_int_contract env \<Longrightarrow> RandInt env this a b = Inr (r, this') \<Longrightarrow> a \<le> r \<and> r \<le> b"
  by (auto simp: RandInt_def uniform_int_contract_def split: if_splits prod.splits)
     (metis fst_conv linorder_not_less)+

lemma Sample_loop_result:
  "uniform_int_contract env \<Longrightarrow> Sample_loop env cs i this sample = Inr (s, this') \<Longrightarrow>
     mset (correspondence_indices_m this') = mset (correspondence_indices_m this) \<and>
     take i (correspondence_indices_m this') = take i (correspondence_indices_m this) \<and>
     s = sample @ map (\<lambda>k. cs ! nat k)
                    (drop i (take kMinimalSampleSize (correspondence_indices_m this'))) \<and>
     (i < kMinimalSampleSize \<longrightarrow> kMinimalSampleSize \<le> length (correspondence_indices_m this'))"
proof (induction env cs i this sample rule: Sample_loop.induct)
  case (1 env cs i this sample)
  show ?case
  proof (cases "i < kMinimalSampleSize")
    case False
    with "1.prems"(2) show ?thesis by (simp add: Sample_loop.simps)
  next
    case True
    from True "1.prems"(2) obtain r this1 where
      r: "RandInt env this (int i) (int (length cs) - 1) = Inr (r, this1)" and
      ri: "in_range (correspondence_indices_m this1) (int i)" and
      rr: "in_range (correspondence_indices_m this1) r" and
      rk: "in_range cs (swap (correspondence_indices_m this1) i (nat r) ! i)" and
      rec: "Sample_loop env cs (Suc i)
         (this1\<lparr>correspondence_indices_m := swap (correspondence_indices_m this1) i (nat r)\<rparr>)
         (sample @ [cs ! nat (swap (correspondence_indices_m this1) i (nat r) ! i)]) = Inr (s, this')"
      by (rule Sample_loop_step)
    let ?idx = "correspondence_indices_m this"
    let ?idx1 = "swap ?idx i (nat r)"
    let ?idx' = "correspondence_indices_m this'"
    have same: "correspondence_indices_m this1 = ?idx" using r by (rule RandInt_indices)
    have li: "i < length ?idx" and lr: "nat r < length ?idx"
      using ri rr same by (auto simp: in_range_def)
    have IH: "mset ?idx' = mset ?idx1 \<and> take (Suc i) ?idx' = take (Suc i) ?idx1 \<and>
       s = (sample @ [cs ! nat (?idx1 ! i)]) @
             map (\<lambda>k. cs ! nat k) (drop (Suc i) (take kMinimalSampleSize ?idx')) \<and>
       (Suc i < kMinimalSampleSize \<longrightarrow> kMinimalSampleSize \<le> length ?idx')"
      using "1.IH" [OF True r _ _ refl refl rk "1.prems"(1)] ri rr rk rec same by (simp add: Let_def)
    have m: "mset ?idx' = mset ?idx"
      using IH mset_swap_indices [OF li lr] by simp
    have len: "length ?idx' = length ?idx"
      using m by (metis size_mset)
    have big: "kMinimalSampleSize \<le> length ?idx'"
      using IH True li len by (cases "Suc i < kMinimalSampleSize") auto
    have nth: "?idx' ! i = ?idx1 ! i"
    proof -
      have "take (Suc i) ?idx' ! i = take (Suc i) ?idx1 ! i" using IH by simp
      then show ?thesis by simp
    qed
    have t: "take i ?idx' = take i ?idx"
    proof -
      have "take i (take (Suc i) ?idx') = take i (take (Suc i) ?idx1)" using IH by simp
      then have "take i ?idx' = take i ?idx1" by (simp add: min_def)
      moreover have "int i \<le> r" using RandInt_bounds [OF "1.prems"(1) r] by simp
      ultimately show ?thesis by (simp add: swap_def)
    qed
    have d: "drop i (take kMinimalSampleSize ?idx') =
             ?idx' ! i # drop (Suc i) (take kMinimalSampleSize ?idx')"
    proof -
      have "i < length (take kMinimalSampleSize ?idx')" using True big by simp
      from Cons_nth_drop_Suc [OF this] True show ?thesis by simp
    qed
    show ?thesis using m t IH nth d big by simp
  qed
qed

lemma Sample_loop_mset:
  "Sample_loop env cs i this sample = Inr (s, this') \<Longrightarrow>
     mset (correspondence_indices_m this') = mset (correspondence_indices_m this)"
proof (induction env cs i this sample rule: Sample_loop.induct)
  case (1 env cs i this sample)
  show ?case
  proof (cases "i < kMinimalSampleSize")
    case False
    with "1.prems" show ?thesis by (simp add: Sample_loop.simps)
  next
    case True
    from True "1.prems" obtain r this1 where
      r: "RandInt env this (int i) (int (length cs) - 1) = Inr (r, this1)" and
      ri: "in_range (correspondence_indices_m this1) (int i)" and
      rr: "in_range (correspondence_indices_m this1) r" and
      rk: "in_range cs (swap (correspondence_indices_m this1) i (nat r) ! i)" and
      rec: "Sample_loop env cs (Suc i)
         (this1\<lparr>correspondence_indices_m := swap (correspondence_indices_m this1) i (nat r)\<rparr>)
         (sample @ [cs ! nat (swap (correspondence_indices_m this1) i (nat r) ! i)]) = Inr (s, this')"
      by (rule Sample_loop_step)
    have same: "correspondence_indices_m this1 = correspondence_indices_m this"
      using r by (rule RandInt_indices)
    have li: "i < length (correspondence_indices_m this)"
      and lr: "nat r < length (correspondence_indices_m this)"
      using ri rr same by (auto simp: in_range_def)
    have "mset (correspondence_indices_m this') =
          mset (swap (correspondence_indices_m this) i (nat r))"
      using "1.IH" [OF True r _ _ refl refl rk] ri rr rec same by (simp add: Let_def)
    with mset_swap_indices [OF li lr] show ?thesis by simp
  qed
qed

lemma RandInt_succeeds:
  "a \<le> b \<Longrightarrow> \<exists>r this'. RandInt env this a b = Inr (r, this')"
  by (auto simp: RandInt_def split: prod.splits)

lemma is_permutation_length: "is_permutation indices n \<Longrightarrow> length indices = n"
  unfolding is_permutation_def by (metis length_map length_upt mset_eq_length minus_nat.diff_0)

lemma is_permutation_set: "is_permutation indices n \<Longrightarrow> set indices = int ` {0..<n}"
  unfolding is_permutation_def by (metis mset_eq_setD set_map set_upt)

lemma is_permutation_distinct: "is_permutation indices n \<Longrightarrow> distinct indices"
proof -
  assume "is_permutation indices n"
  then have "mset indices = mset (map int [0..<n])" by (simp add: is_permutation_def)
  moreover have "distinct (map int [0..<n])" by (simp add: distinct_map)
  ultimately show ?thesis by (metis mset_eq_imp_distinct_iff)
qed

lemma Sample_loop_succeeds:
  "uniform_int_contract env \<Longrightarrow> is_permutation (correspondence_indices_m this) (length cs) \<Longrightarrow>
   kMinimalSampleSize \<le> length cs \<Longrightarrow>
   \<exists>s this'. Sample_loop env cs i this sample = Inr (s, this')"
proof (induction env cs i this sample rule: Sample_loop.induct)
  case (1 env cs i this sample)
  show ?case
  proof (cases "i < kMinimalSampleSize")
    case False
    then show ?thesis by (simp add: Sample_loop.simps)
  next
    case True
    let ?idx = "correspondence_indices_m this"
    have ab: "int i \<le> int (length cs) - 1" using True "1.prems"(3) by simp
    then obtain r this1 where r: "RandInt env this (int i) (int (length cs) - 1) = Inr (r, this1)"
      using RandInt_succeeds by blast
    have same: "correspondence_indices_m this1 = ?idx" using r by (rule RandInt_indices)
    have len: "length ?idx = length cs" using "1.prems"(2) by (rule is_permutation_length)
    have rb: "int i \<le> r \<and> r \<le> int (length cs) - 1" using RandInt_bounds [OF "1.prems"(1) r] .
    have ri: "in_range (correspondence_indices_m this1) (int i)"
      and rr: "in_range (correspondence_indices_m this1) r"
      using rb ab len same by (auto simp: in_range_def)
    have li: "i < length ?idx" and lr: "nat r < length ?idx"
      using ri rr same by (auto simp: in_range_def)
    have p1: "is_permutation (swap ?idx i (nat r)) (length cs)"
      using "1.prems"(2) mset_swap_indices [OF li lr] by (simp add: is_permutation_def)
    have "swap ?idx i (nat r) ! i \<in> set (swap ?idx i (nat r))"
      using li by simp
    then have rk: "in_range cs (swap (correspondence_indices_m this1) i (nat r) ! i)"
      using is_permutation_set [OF p1] same by (auto simp: in_range_def)
    have "\<exists>s this'. Sample_loop env cs (Suc i)
         (this1\<lparr>correspondence_indices_m := swap (correspondence_indices_m this1) i (nat r)\<rparr>)
         (sample @ [cs ! nat (swap (correspondence_indices_m this1) i (nat r) ! i)]) = Inr (s, this')"
      using "1.IH" [OF True r _ _ refl refl rk "1.prems"(1) _ "1.prems"(3)] ri rr p1 same
      by simp
    then show ?thesis
      using True r ri rr rk by (subst Sample_loop.simps) (simp add: Let_def)
  qed
qed

lemma uniform_int_contract_test_env: "uniform_int_contract test_env"
proof -
  have "a \<le> a + int g mod (b - a + 1) \<and> a + int g mod (b - a + 1) \<le> b"
    if "a \<le> b" for g :: nat and a b :: int
  proof -
    from that have pos: "0 < b - a + 1" by simp
    from pos_mod_sign [OF pos, of "int g"] pos_mod_bound [OF pos, of "int g"]
    show ?thesis by simp
  qed
  then show ?thesis
    by (simp add: uniform_int_contract_def test_env_def counter_UniformInt_def)
qed

text \<open>
  Claim C6. Every call of \<open>Sample\<close> on at least \<open>K = 4\<close> correspondences, with the index
  array a permutation of the indices (as the reset leaves it and as every earlier call
  leaves it) and a generator that keeps the contract of the uniform distribution,
  returns: the sample has exactly four correspondences, they are the correspondences at
  the first four entries of the index array, and these four indices are distinct and
  valid. This holds for every state of the generator, hence for every seed.
\<close>

theorem Sample_returns_distinct_indices:
  assumes "uniform_int_contract env"
    and "is_permutation (correspondence_indices_m this) (length correspondences)"
    and "kMinimalSampleSize \<le> length correspondences"
  shows "\<exists>sample this'.
           Sample env this correspondences = Inr (sample, this') \<and>
           length sample = kMinimalSampleSize \<and> kMinimalSampleSize = 4 \<and>
           sample = map (\<lambda>k. correspondences ! nat k)
                      (take kMinimalSampleSize (correspondence_indices_m this')) \<and>
           distinct (take kMinimalSampleSize (correspondence_indices_m this')) \<and>
           set (take kMinimalSampleSize (correspondence_indices_m this'))
             \<subseteq> int ` {0..<length correspondences} \<and>
           is_permutation (correspondence_indices_m this') (length correspondences)"
proof -
  from Sample_loop_succeeds [OF assms] obtain sample this' where
    s: "Sample env this correspondences = Inr (sample, this')"
    unfolding Sample_def by blast
  from Sample_loop_result [OF assms(1) s [unfolded Sample_def]]
  have m: "mset (correspondence_indices_m this') = mset (correspondence_indices_m this)"
    and eq: "sample = map (\<lambda>k. correspondences ! nat k)
                      (take kMinimalSampleSize (correspondence_indices_m this'))"
    and big: "kMinimalSampleSize \<le> length (correspondence_indices_m this')"
    by (simp_all add: kMinimalSampleSize_def)
  from m assms(2) have p: "is_permutation (correspondence_indices_m this') (length correspondences)"
    by (simp add: is_permutation_def)
  have d: "distinct (take kMinimalSampleSize (correspondence_indices_m this'))"
    using is_permutation_distinct [OF p] by (rule distinct_take)
  have sub: "set (take kMinimalSampleSize (correspondence_indices_m this'))
             \<subseteq> int ` {0..<length correspondences}"
    using is_permutation_set [OF p] set_take_subset by fastforce
  have len: "length sample = kMinimalSampleSize" using eq big by simp
  show ?thesis using s eq d sub p len by (simp add: kMinimalSampleSize_def)
qed

theorem Sample_returns_distinct_indices_witness:
  "\<exists>sample this'.
     Sample test_env (test_estimator\<lparr>correspondence_indices_m := [0, 1, 2, 3, 4]\<rparr>)
       (test_correspondences 0) = Inr (sample, this') \<and>
     length sample = 4 \<and>
     distinct (take 4 (correspondence_indices_m this'))"
proof -
  have p: "is_permutation
             (correspondence_indices_m (test_estimator\<lparr>correspondence_indices_m := [0, 1, 2, 3, 4]\<rparr>))
             (length (test_correspondences 0))"
    by (simp add: is_permutation_def test_correspondences_def upt_rec)
  have k: "kMinimalSampleSize \<le> length (test_correspondences 0)"
    by (simp add: kMinimalSampleSize_def test_correspondences_def)
  from Sample_returns_distinct_indices [OF uniform_int_contract_test_env p k]
  show ?thesis by (auto simp: kMinimalSampleSize_def)
qed

subsection \<open>Evaluating the model on the test input\<close>

lemma iota_five: "map int [0..<length (test_correspondences d)] = [0, 1, 2, 3, 4]"
  by (simp add: test_correspondences_def upt_rec)

lemma shifting_env_simps:
  "UniformInt shifting_env = counter_UniformInt"
  "ProjectPoint shifting_env = pinhole_ProjectPoint"
  "ComputeInputDatum shifting_env = (\<lambda>sample. \<lparr>datum = sample, priors = ()\<rparr>)"
  "EstimateSimilarityTransformation shifting_env = first_point_solver"
  by (simp_all add: shifting_env_def test_env_def)

lemma test_env_simps:
  "UniformInt test_env = counter_UniformInt"
  "ProjectPoint test_env = pinhole_ProjectPoint"
  "ComputeInputDatum test_env = (\<lambda>sample. \<lparr>datum = sample, priors = ()\<rparr>)"
  "EstimateSimilarityTransformation test_env = (\<lambda>input hypotheses. (True, identity_Solution))"
  "CastUndefined test_env = (\<lambda>a. INT_MIN)"
  by (simp_all add: test_env_def)

lemma identity_Solution_translated: "identity_Solution = translated_Solution 0"
  by (simp add: identity_Solution_def translated_Solution_def)

lemma Sample_counter_first:
  "UniformInt env = counter_UniformInt \<Longrightarrow>
   Sample env \<lparr>params_m = p, prng_m = 0, correspondence_indices_m = [0, 1, 2, 3, 4]\<rparr>
     (test_correspondences d) =
   Inr ([test_correspondence 0 d, test_correspondence 2 d, test_correspondence 4 d,
         test_correspondence 1 d],
        \<lparr>params_m = p, prng_m = 4, correspondence_indices_m = [0, 2, 4, 1, 3]\<rparr>)"
  by (simp add: Sample_def Sample_loop.simps RandInt_def counter_UniformInt_def
       kMinimalSampleSize_def in_range_def swap_def test_correspondences_def Let_def)

lemma Sample_counter_second:
  "UniformInt env = counter_UniformInt \<Longrightarrow>
   Sample env \<lparr>params_m = p, prng_m = 4, correspondence_indices_m = [0, 1, 2, 3, 4]\<rparr>
     (test_correspondences d) =
   Inr ([test_correspondence 4 d, test_correspondence 2 d, test_correspondence 1 d,
         test_correspondence 0 d],
        \<lparr>params_m = p, prng_m = 8, correspondence_indices_m = [4, 2, 1, 0, 3]\<rparr>)"
  by (simp add: Sample_def Sample_loop.simps RandInt_def counter_UniformInt_def
       kMinimalSampleSize_def in_range_def swap_def test_correspondences_def Let_def)

lemma Sample_counter_again:
  "UniformInt env = counter_UniformInt \<Longrightarrow>
   Sample env \<lparr>params_m = p, prng_m = 4, correspondence_indices_m = [0, 2, 4, 1, 3]\<rparr>
     (test_correspondences d) =
   Inr ([test_correspondence 3 d, test_correspondence 4 d, test_correspondence 2 d,
         test_correspondence 0 d],
        \<lparr>params_m = p, prng_m = 8, correspondence_indices_m = [3, 4, 2, 0, 1]\<rparr>)"
  by (simp add: Sample_def Sample_loop.simps RandInt_def counter_UniformInt_def
       kMinimalSampleSize_def in_range_def swap_def test_correspondences_def Let_def)

lemma hypothesis_inliers_translated:
  "ProjectPoint env = pinhole_ProjectPoint \<Longrightarrow>
   hypothesis_inliers env this (test_correspondences d) (translated_Solution t) 0 =
     (if (t - d) * (t - d) <
         reprojection_error_thresh (params_m this) * reprojection_error_thresh (params_m this)
      then [0, 1, 2, 3, 4] else [])"
  by (simp add: hypothesis_inliers_def translated_Solution_def test_correspondences_def
        test_correspondence_def pinhole_ProjectPoint_def quat_rotate_def
        cross_def vec3_add_def vec3_scale_def vec3_div_def squaredNorm_diff_def)

subsection \<open>Scoring\<close>

lemma UpdateBestSolution_loop_char:
  "UpdateBestSolution_loop env this cs sol i bs bi r = Inr (r', bs', bi') \<Longrightarrow>
   (if \<exists>k. i \<le> k \<and> k < length (rotations sol) \<and>
           length bi < length (hypothesis_inliers env this cs sol k)
    then length bi < length bi' \<and>
         r' = real (length bi') / real (length cs) \<and>
         (\<exists>k. i \<le> k \<and> k < length (rotations sol) \<and> bi' = hypothesis_inliers env this cs sol k) \<and>
         (\<forall>k. i \<le> k \<and> k < length (rotations sol) \<longrightarrow>
                length (hypothesis_inliers env this cs sol k) \<le> length bi')
    else r' = r \<and> bs' = bs \<and> bi' = bi)"
proof (induction env this cs sol i bs bi r rule: UpdateBestSolution_loop.induct)
  case (1 env this cs sol i bs bi r)
  let ?c = "\<lambda>k. length (hypothesis_inliers env this cs sol k)"
  let ?inl = "hypothesis_inliers env this cs sol i"
  show ?case
  proof (cases "i < length (rotations sol)")
    case False
    with "1.prems" show ?thesis by (simp add: UpdateBestSolution_loop.simps)
  next
    case True
    from "1.prems" True have rng: "i < length (translations_v sol) \<and> i < length (scales sol)"
      by (subst (asm) UpdateBestSolution_loop.simps) (auto split: if_splits)
    show ?thesis
    proof (cases "length bi < length ?inl")
      case better: True
      from "1.prems" True rng better have ne:
        "rotations bs \<noteq> [] \<and> translations_v bs \<noteq> [] \<and> scales bs \<noteq> []"
        by (subst (asm) UpdateBestSolution_loop.simps) (auto simp: Let_def split: if_splits)
      define bs1 where "bs1 = bs
          \<lparr> rotations := (rotations bs)[0 := rotations sol ! i],
            translations_v := (translations_v bs)[0 := translations_v sol ! i],
            scales := (scales bs)[0 := scales sol ! i] \<rparr>"
      from "1.prems" True rng better ne have rec:
        "UpdateBestSolution_loop env this cs sol (Suc i) bs1 ?inl
           (real (length ?inl) / real (length cs)) = Inr (r', bs', bi')"
        by (subst (asm) UpdateBestSolution_loop.simps) (simp add: Let_def bs1_def)
      note IH = "1.IH"(1) [OF True rng refl better ne rec [unfolded bs1_def]]
      show ?thesis
      proof (cases "\<exists>k. Suc i \<le> k \<and> k < length (rotations sol) \<and> length ?inl < ?c k")
        case True
        with IH have a: "length ?inl < length bi'"
          and b: "r' = real (length bi') / real (length cs)"
          and c: "\<exists>k. Suc i \<le> k \<and> k < length (rotations sol) \<and>
                      bi' = hypothesis_inliers env this cs sol k"
          and d: "\<forall>k. Suc i \<le> k \<and> k < length (rotations sol) \<longrightarrow> ?c k \<le> length bi'"
          by simp_all
        have d': "\<forall>k. i \<le> k \<and> k < length (rotations sol) \<longrightarrow> ?c k \<le> length bi'"
        proof (intro allI impI)
          fix k assume k: "i \<le> k \<and> k < length (rotations sol)"
          show "?c k \<le> length bi'"
          proof (cases "k = i")
            case True with a show ?thesis by simp
          next
            case False with k d show ?thesis by (simp add: Suc_le_eq)
          qed
        qed
        from c have c': "\<exists>k. i \<le> k \<and> k < length (rotations sol) \<and>
                      bi' = hypothesis_inliers env this cs sol k"
          using Suc_leD by blast
        have ex: "\<exists>k. i \<le> k \<and> k < length (rotations sol) \<and> length bi < ?c k"
          using better \<open>i < length (rotations sol)\<close> by blast
        from a better b c' d' ex show ?thesis by simp
      next
        case False
        with IH have e: "r' = real (length ?inl) / real (length cs)" "bi' = ?inl" by simp_all
        have d': "\<forall>k. i \<le> k \<and> k < length (rotations sol) \<longrightarrow> ?c k \<le> length bi'"
        proof (intro allI impI)
          fix k assume k: "i \<le> k \<and> k < length (rotations sol)"
          show "?c k \<le> length bi'"
          proof (cases "k = i")
            case True with e show ?thesis by simp
          next
            case neq: False
            with k have "Suc i \<le> k" by simp
            with False k e show ?thesis by (meson not_le_imp_less)
          qed
        qed
        have ex: "\<exists>k. i \<le> k \<and> k < length (rotations sol) \<and> length bi < ?c k"
          using better \<open>i < length (rotations sol)\<close> by blast
        have c': "\<exists>k. i \<le> k \<and> k < length (rotations sol) \<and>
                      bi' = hypothesis_inliers env this cs sol k"
          using e \<open>i < length (rotations sol)\<close> by blast
        from e better d' ex c' show ?thesis by simp
      qed
    next
      case worse: False
      from "1.prems" True rng worse have rec:
        "UpdateBestSolution_loop env this cs sol (Suc i) bs bi r = Inr (r', bs', bi')"
        by (subst (asm) UpdateBestSolution_loop.simps) (simp add: Let_def)
      note IH = "1.IH"(2) [OF True rng refl worse rec]
      have iff: "(\<exists>k. i \<le> k \<and> k < length (rotations sol) \<and> length bi < ?c k) \<longleftrightarrow>
                 (\<exists>k. Suc i \<le> k \<and> k < length (rotations sol) \<and> length bi < ?c k)"
        using worse by (metis Suc_leD Suc_leI le_neq_implies_less)
      show ?thesis
      proof (cases "\<exists>k. Suc i \<le> k \<and> k < length (rotations sol) \<and> length bi < ?c k")
        case True
        with IH have a: "length bi < length bi'"
          and b: "r' = real (length bi') / real (length cs)"
          and c: "\<exists>k. Suc i \<le> k \<and> k < length (rotations sol) \<and>
                      bi' = hypothesis_inliers env this cs sol k"
          and d: "\<forall>k. Suc i \<le> k \<and> k < length (rotations sol) \<longrightarrow> ?c k \<le> length bi'"
          by simp_all
        have d': "\<forall>k. i \<le> k \<and> k < length (rotations sol) \<longrightarrow> ?c k \<le> length bi'"
        proof (intro allI impI)
          fix k assume k: "i \<le> k \<and> k < length (rotations sol)"
          show "?c k \<le> length bi'"
          proof (cases "k = i")
            case True with a worse show ?thesis by simp
          next
            case False with k d show ?thesis by (simp add: Suc_le_eq)
          qed
        qed
        from c have c': "\<exists>k. i \<le> k \<and> k < length (rotations sol) \<and>
                      bi' = hypothesis_inliers env this cs sol k"
          using Suc_leD by blast
        from True iff have ex: "\<exists>k. i \<le> k \<and> k < length (rotations sol) \<and> length bi < ?c k"
          by simp
        from a b c' d' ex show ?thesis by simp
      next
        case False
        with IH iff show ?thesis by simp
      qed
    qed
  qed
qed

lemma UpdateBestSolution_loop_succeeds:
  "well_formed_Solution sol \<Longrightarrow> holds_a_hypothesis bs \<Longrightarrow>
   \<exists>r' bs' bi'. UpdateBestSolution_loop env this cs sol i bs bi r = Inr (r', bs', bi')"
proof (induction env this cs sol i bs bi r rule: UpdateBestSolution_loop.induct)
  case (1 env this cs sol i bs bi r)
  let ?inl = "hypothesis_inliers env this cs sol i"
  show ?case
  proof (cases "i < length (rotations sol)")
    case False
    then show ?thesis by (simp add: UpdateBestSolution_loop.simps)
  next
    case True
    from True "1.prems"(1) have rng: "i < length (translations_v sol) \<and> i < length (scales sol)"
      by (simp add: well_formed_Solution_def)
    from "1.prems"(2) have ne:
      "rotations bs \<noteq> [] \<and> translations_v bs \<noteq> [] \<and> scales bs \<noteq> []"
      by (simp add: holds_a_hypothesis_def)
    show ?thesis
    proof (cases "length bi < length ?inl")
      case better: True
      have "holds_a_hypothesis (bs
          \<lparr> rotations := (rotations bs)[0 := rotations sol ! i],
            translations_v := (translations_v bs)[0 := translations_v sol ! i],
            scales := (scales bs)[0 := scales sol ! i] \<rparr>)"
        using ne by (simp add: holds_a_hypothesis_def)
      from "1.IH"(1) [OF True rng refl better ne "1.prems"(1) this]
      show ?thesis
        using True rng better ne by (subst UpdateBestSolution_loop.simps) (simp add: Let_def)
    next
      case worse: False
      from "1.IH"(2) [OF True rng refl worse "1.prems"]
      show ?thesis
        using True rng worse by (subst UpdateBestSolution_loop.simps) (simp add: Let_def)
    qed
  qed
qed

lemma UpdateBestSolution_ratio_pos:
  assumes "cs \<noteq> []"
    and "UpdateBestSolution env this cs sol bs bi = Inr (ratio, bs', bi')"
  shows "0 < ratio"
proof -
  from assms(1) have n: "0 < real (length cs)" by simp
  from UpdateBestSolution_loop_char [OF assms(2) [unfolded UpdateBestSolution_def]]
  have "(length bi < length bi' \<and> ratio = real (length bi') / real (length cs)) \<or>
        ratio = real (length bi) / real (length cs) + DBL_EPSILON"
    by (auto split: if_splits)
  then show ?thesis
  proof
    assume a: "length bi < length bi' \<and> ratio = real (length bi') / real (length cs)"
    then have "bi' \<noteq> []" by auto
    then have "0 < real (length bi')" by simp
    with a n show ?thesis by simp
  next
    assume "ratio = real (length bi) / real (length cs) + DBL_EPSILON"
    moreover have "0 \<le> real (length bi) / real (length cs)" by simp
    ultimately show ?thesis using DBL_EPSILON_pos by linarith
  qed
qed


text \<open>
  Claim C4. On a non-empty list of correspondences, with well-formed hypotheses and a
  best solution that holds a hypothesis, \<open>UpdateBestSolution\<close> returns, and: when some
  hypothesis has strictly more inliers than the incoming best, the ratio returned is the
  new best count over the number of correspondences, the new best count being the largest
  count of the call; when none has, the ratio is the incoming count over the number of
  correspondences plus machine epsilon, and solution and inliers are unchanged. In both
  cases the ratio is strictly positive and strictly above the incoming ratio.
\<close>

theorem UpdateBestSolution_returned_ratio:
  assumes "correspondences \<noteq> []"
    and "well_formed_Solution estimated_solns"
    and "holds_a_hypothesis best_solution"
  shows "\<exists>ratio best_solution' best_inliers'.
     UpdateBestSolution env this correspondences estimated_solns best_solution best_inliers
       = Inr (ratio, best_solution', best_inliers') \<and>
     ((\<exists>k < length (rotations estimated_solns).
          length best_inliers < length (hypothesis_inliers env this correspondences estimated_solns k))
        \<longrightarrow> ratio = real (length best_inliers') / real (length correspondences) \<and>
            length best_inliers < length best_inliers' \<and>
            (\<exists>k < length (rotations estimated_solns).
               best_inliers' = hypothesis_inliers env this correspondences estimated_solns k) \<and>
            (\<forall>k < length (rotations estimated_solns).
               length (hypothesis_inliers env this correspondences estimated_solns k)
                 \<le> length best_inliers')) \<and>
     (\<not> (\<exists>k < length (rotations estimated_solns).
          length best_inliers < length (hypothesis_inliers env this correspondences estimated_solns k))
        \<longrightarrow> ratio = real (length best_inliers) / real (length correspondences) + DBL_EPSILON \<and>
            best_solution' = best_solution \<and> best_inliers' = best_inliers) \<and>
     0 < ratio \<and>
     real (length best_inliers) / real (length correspondences) < ratio"
proof -
  from UpdateBestSolution_loop_succeeds [OF assms(2,3)]
  obtain ratio bs' bi' where
    u: "UpdateBestSolution env this correspondences estimated_solns best_solution best_inliers
          = Inr (ratio, bs', bi')"
    unfolding UpdateBestSolution_def by blast
  note ch = UpdateBestSolution_loop_char [OF u [unfolded UpdateBestSolution_def], simplified]
  let ?ex = "\<exists>k < length (rotations estimated_solns).
          length best_inliers < length (hypothesis_inliers env this correspondences estimated_solns k)"
  from assms(1) have n: "0 < real (length correspondences)" by simp
  have pos: "0 < ratio" using UpdateBestSolution_ratio_pos [OF assms(1) u] .
  have above: "real (length best_inliers) / real (length correspondences) < ratio"
  proof (cases ?ex)
    case True
    with ch have "length best_inliers < length bi'"
      and "ratio = real (length bi') / real (length correspondences)" by simp_all
    with n show ?thesis by (simp add: divide_strict_right_mono)
  next
    case False
    with ch have "ratio = real (length best_inliers) / real (length correspondences) + DBL_EPSILON"
      by simp
    with DBL_EPSILON_pos show ?thesis by simp
  qed
  have imp1: "?ex \<longrightarrow> ratio = real (length bi') / real (length correspondences) \<and>
            length best_inliers < length bi' \<and>
            (\<exists>k < length (rotations estimated_solns).
               bi' = hypothesis_inliers env this correspondences estimated_solns k) \<and>
            (\<forall>k < length (rotations estimated_solns).
               length (hypothesis_inliers env this correspondences estimated_solns k)
                 \<le> length bi')"
    using ch by (cases ?ex) simp_all
  have imp2: "\<not> ?ex \<longrightarrow> ratio = real (length best_inliers) / real (length correspondences) + DBL_EPSILON \<and>
            bs' = best_solution \<and> bi' = best_inliers"
    using ch by (cases ?ex) simp_all
  from u imp1 imp2 pos above show ?thesis by blast
qed

theorem UpdateBestSolution_returned_ratio_witness:
  "\<exists>ratio best_solution' best_inliers'.
     UpdateBestSolution test_env test_estimator (test_correspondences 0) identity_Solution
       identity_Solution [] = Inr (ratio, best_solution', best_inliers') \<and>
     0 < ratio"
proof -
  have a: "test_correspondences 0 \<noteq> []" by (simp add: test_correspondences_def)
  have b: "well_formed_Solution identity_Solution"
    by (simp add: well_formed_Solution_def identity_Solution_def)
  have c: "holds_a_hypothesis identity_Solution"
    by (simp add: holds_a_hypothesis_def identity_Solution_def)
  from UpdateBestSolution_returned_ratio [OF a b c, of test_env test_estimator "[]"]
  show ?thesis by blast
qed

subsection \<open>The loop of Estimate\<close>

lemma Estimate_loop_invariant:
  assumes "Estimate_loop env the_priors cs lg st = Inr st'"
    and "I st"
    and "\<And>s s'. I s \<Longrightarrow> num_iterations (st_summary s) < st_max_iterations s \<Longrightarrow>
            Estimate_iteration env the_priors cs lg s = Inr s' \<Longrightarrow> I s'"
  shows "I st'"
  using assms
proof (induction env the_priors cs lg st rule: Estimate_loop.induct)
  case (1 env the_priors cs lg st)
  show ?case
  proof (cases "num_iterations (st_summary st) < st_max_iterations st")
    case False
    with "1.prems"(1,2) show ?thesis by (simp add: Estimate_loop.simps)
  next
    case True
    from "1.prems"(1) True obtain s1 where
      step: "Estimate_iteration env the_priors cs lg st = Inr s1" and
      rec: "Estimate_loop env the_priors cs lg s1 = Inr st'"
      by (subst (asm) Estimate_loop.simps) (auto split: sum.splits)
    from "1.prems"(3) [OF "1.prems"(2) True step] have "I s1" .
    show ?thesis
    proof (rule "1.IH" [OF True step rec \<open>I s1\<close>])
      fix s s'
      assume "I s" "num_iterations (st_summary s) < st_max_iterations s"
        "Estimate_iteration env the_priors cs lg s = Inr s'"
      then show "I s'" by (rule "1.prems"(3))
    qed
  qed
qed


lemma Estimate_iteration_this:
  assumes "Estimate_iteration env the_priors cs lg st = Inr st'"
  obtains sample where "Sample env (st_this st) cs = Inr (sample, st_this st')"
  using assms
  by (auto simp: Estimate_iteration_def Let_def next_iteration_def
           split: sum.splits prod.splits if_splits)

lemma Sample_is_permutation:
  "is_permutation (correspondence_indices_m this) n \<Longrightarrow> Sample env this cs = Inr (sample, this') \<Longrightarrow>
   is_permutation (correspondence_indices_m this') n"
  unfolding Sample_def is_permutation_def by (drule Sample_loop_mset) simp

lemma Estimate_iteration_is_permutation:
  assumes "is_permutation (correspondence_indices_m (st_this st)) n"
    and "Estimate_iteration env the_priors cs lg st = Inr st'"
  shows "is_permutation (correspondence_indices_m (st_this st')) n"
proof -
  from assms(2) obtain sample where "Sample env (st_this st) cs = Inr (sample, st_this st')"
    by (rule Estimate_iteration_this)
  with assms(1) show ?thesis by (rule Sample_is_permutation)
qed

lemma Estimate_init_is_permutation:
  "is_permutation (correspondence_indices_m (st_this (Estimate_init this cs summary_in))) (length cs)"
  by (simp add: Estimate_init_def is_permutation_def)

lemma Estimate_Inr:
  assumes "Estimate env this the_priors cs (Some summary_in) = Inr (sol, sm, this')"
  obtains st where
    "Estimate_loop env the_priors cs (ln (failure_probability (params_m this)))
       (Estimate_init this cs summary_in) = Inr st"
    "sol = st_best_solution st"
    "sm = (st_summary st)\<lparr>confidence := final_confidence st\<rparr>"
    "this' = st_this st"
    "kMinimalSampleSize \<le> length cs"
  using assms by (auto simp: Estimate_def Let_def split: if_splits sum.splits)

lemma Estimate_is_permutation:
  assumes e: "Estimate env this the_priors cs (Some summary_in) = Inr (sol, sm, this')"
  shows "is_permutation (correspondence_indices_m this') (length cs)"
proof -
  from e obtain st where
    run: "Estimate_loop env the_priors cs (ln (failure_probability (params_m this)))
           (Estimate_init this cs summary_in) = Inr st" and t: "this' = st_this st"
    by (rule Estimate_Inr)
  let ?I = "\<lambda>s. is_permutation (correspondence_indices_m (st_this s)) (length cs)"
  have "?I st"
  proof (rule Estimate_loop_invariant [OF run, where I = ?I])
    show "?I (Estimate_init this cs summary_in)" by (rule Estimate_init_is_permutation)
  next
    fix s s'
    assume "?I s" "Estimate_iteration env the_priors cs (ln (failure_probability (params_m this))) s = Inr s'"
    then show "?I s'" by (rule Estimate_iteration_is_permutation)
  qed
  with t show ?thesis by simp
qed

lemma Estimate_iteration_scored:
  assumes "Sample env (st_this st) cs = Inr (sample, this')"
    and "EstimateSimilarityTransformation env
           ((ComputeInputDatum env sample)\<lparr>priors := the_priors\<rparr>) (st_hypotheses st)
         = (True, hyps)"
    and "UpdateBestSolution env this' cs hyps (st_best_solution st) (inliers (st_summary st))
         = Inr (ratio, best', inl')"
    and "ComputeMaxIterations env this' ratio lg = Inr m"
  shows "Estimate_iteration env the_priors cs lg st =
     Inr (next_iteration
            (st\<lparr>st_this := this', st_hypotheses := hyps, st_best_solution := best',
                st_summary := (st_summary st)
                   \<lparr>num_hypotheses := num_hypotheses (st_summary st) + int (length (rotations hyps)),
                    inliers := inl'\<rparr>,
                st_inlier_ratio := ratio, st_max_iterations := m\<rparr>))"
  by (simp add: Estimate_iteration_def assms)

lemma Estimate_loop_single:
  assumes "num_iterations (st_summary st) < st_max_iterations st"
    and "Estimate_iteration env the_priors cs lg st = Inr st1"
    and "\<not> num_iterations (st_summary st1) < st_max_iterations st1"
  shows "Estimate_loop env the_priors cs lg st = Inr st1"
  using assms
  by (simp add: Estimate_loop.simps [of env the_priors cs lg st]
        Estimate_loop.simps [of env the_priors cs lg st1])

lemma Estimate_completes:
  assumes "kMinimalSampleSize \<le> length cs"
    and "Estimate_loop env the_priors cs (ln (failure_probability (params_m this)))
           (Estimate_init this cs s) = Inr st"
  shows "Estimate env this the_priors cs (Some s) =
         Inr (st_best_solution st, (st_summary st)\<lparr>confidence := final_confidence st\<rparr>, st_this st)"
  using assms by (simp add: Estimate_def)

lemma Estimate_init_five:
  "Estimate_init \<lparr>params_m = p, prng_m = g, correspondence_indices_m = idx\<rparr>
     (test_correspondences d) s =
   \<lparr> st_this = \<lparr>params_m = p, prng_m = g, correspondence_indices_m = [0, 1, 2, 3, 4]\<rparr>,
     st_hypotheses = \<lparr>rotations = [], translations_v = [], scales = []\<rparr>,
     st_best_solution = identity_Solution,
     st_summary = s\<lparr>inliers := [], num_iterations := 0\<rparr>,
     st_inlier_ratio = 0,
     st_max_iterations = max_iterations p \<rparr>"
  by (simp add: Estimate_init_def iota_five identity_Solution_def)

subsection \<open>Runs of Estimate on the test input\<close>

text \<open>
  Five correspondences \<open>(k, 0, 1)\<close> seen at \<open>(k + d, 0)\<close>, and a hypothesis that moves
  the points by \<open>t\<close> along the first axis: the reprojection error of each correspondence
  is \<open>\<bar>t - d\<bar>\<close>, so either all five are inliers or none is.
\<close>

lemma UpdateBestSolution_translated_all:
  assumes "ProjectPoint env = pinhole_ProjectPoint"
    and "(t - d) * (t - d) <
         reprojection_error_thresh (params_m this) * reprojection_error_thresh (params_m this)"
  shows "UpdateBestSolution env this (test_correspondences d) (translated_Solution t)
           identity_Solution [] = Inr (1, translated_Solution t, [0, 1, 2, 3, 4])"
proof -
  have n: "real (length (test_correspondences d)) = 5" by (simp add: test_correspondences_def)
  show ?thesis
    by (simp add: UpdateBestSolution_def UpdateBestSolution_loop.simps
          hypothesis_inliers_translated [OF assms(1)] assms(2))
       (simp add: identity_Solution_def translated_Solution_def UpdateBestSolution_loop.simps n)
qed

lemma UpdateBestSolution_translated_none:
  assumes "ProjectPoint env = pinhole_ProjectPoint"
    and "\<not> (t - d) * (t - d) <
         reprojection_error_thresh (params_m this) * reprojection_error_thresh (params_m this)"
  shows "UpdateBestSolution env this (test_correspondences d) (translated_Solution t)
           identity_Solution [] = Inr (DBL_EPSILON, identity_Solution, [])"
  by (simp add: UpdateBestSolution_def UpdateBestSolution_loop.simps
        hypothesis_inliers_translated [OF assms(1)] assms(2))
     (simp add: translated_Solution_def)

lemma ComputeMaxIterations_one:
  "ComputeMaxIterations env this 1 lg = Inr (min_iterations (params_m this))"
  by (simp add: ComputeMaxIterations_def)

text \<open>One iteration, all five correspondences inliers of the hypothesis, then the loop ends.\<close>

lemma Estimate_one_iteration_all_inliers:
  assumes env: "UniformInt env = counter_UniformInt" "ProjectPoint env = pinhole_ProjectPoint"
    and sample: "Sample env \<lparr>params_m = p, prng_m = g, correspondence_indices_m = [0, 1, 2, 3, 4]\<rparr>
                   (test_correspondences d) = Inr (sample, this')"
    and solver: "EstimateSimilarityTransformation env
           ((ComputeInputDatum env sample)\<lparr>priors := the_priors\<rparr>)
           \<lparr>rotations = [], translations_v = [], scales = []\<rparr> = (True, translated_Solution t)"
    and close: "(t - d) * (t - d) < reprojection_error_thresh p * reprojection_error_thresh p"
    and its: "0 < max_iterations p" "min_iterations p \<le> 1"
  shows "Estimate env \<lparr>params_m = p, prng_m = g, correspondence_indices_m = idx\<rparr> the_priors
           (test_correspondences d) (Some s) =
         Inr (translated_Solution t,
              \<lparr>inliers = [0, 1, 2, 3, 4], num_iterations = 1,
               num_hypotheses = num_hypotheses s + 1, confidence = 1\<rparr>,
              this')"
proof -
  let ?cs = "test_correspondences d"
  let ?this = "\<lparr>params_m = p, prng_m = g, correspondence_indices_m = idx\<rparr>"
  define st0 where "st0 = Estimate_init ?this ?cs s"
  have p': "params_m this' = p" using Sample_params_m [OF sample] by simp
  have a: "st_this st0 = \<lparr>params_m = p, prng_m = g, correspondence_indices_m = [0, 1, 2, 3, 4]\<rparr>"
    and h: "st_hypotheses st0 = \<lparr>rotations = [], translations_v = [], scales = []\<rparr>"
    and b: "st_best_solution st0 = identity_Solution"
    and c: "inliers (st_summary st0) = []"
    and d: "num_iterations (st_summary st0) = 0" "st_max_iterations st0 = max_iterations p"
       "num_hypotheses (st_summary st0) = num_hypotheses s"
    by (simp_all add: st0_def Estimate_init_five)
  define st1 where "st1 = next_iteration
            (st0\<lparr>st_this := this', st_hypotheses := translated_Solution t,
                 st_best_solution := translated_Solution t,
                 st_summary := (st_summary st0)
                   \<lparr>num_hypotheses := num_hypotheses (st_summary st0) +
                                        int (length (rotations (translated_Solution t))),
                    inliers := [0, 1, 2, 3, 4]\<rparr>,
                 st_inlier_ratio := 1, st_max_iterations := min_iterations p\<rparr>)"
  have u: "UpdateBestSolution env this' ?cs (translated_Solution t) (st_best_solution st0)
             (inliers (st_summary st0)) = Inr (1, translated_Solution t, [0, 1, 2, 3, 4])"
    using UpdateBestSolution_translated_all [OF env(2), of t d this'] close p' by (simp add: b c)
  have m: "ComputeMaxIterations env this' 1 lg = Inr (min_iterations p)" for lg
    by (simp add: ComputeMaxIterations_one p')
  have s1: "Sample env (st_this st0) ?cs = Inr (sample, this')" by (simp add: a sample)
  have s2: "EstimateSimilarityTransformation env
           ((ComputeInputDatum env sample)\<lparr>priors := the_priors\<rparr>) (st_hypotheses st0)
         = (True, translated_Solution t)" by (simp add: h solver)
  have step: "Estimate_iteration env the_priors ?cs lg st0 = Inr st1" for lg
    unfolding st1_def by (rule Estimate_iteration_scored [OF s1 s2 u m])
  have loop: "Estimate_loop env the_priors ?cs lg st0 = Inr st1" for lg
    by (rule Estimate_loop_single [OF _ step])
       (insert its, simp_all add: d st1_def next_iteration_def)
  have len: "kMinimalSampleSize \<le> length ?cs"
    by (simp add: kMinimalSampleSize_def test_correspondences_def)
  have f1: "st_best_solution st1 = translated_Solution t"
    and f2: "st_this st1 = this'"
    and f3: "final_confidence st1 = 1"
    by (simp_all add: st1_def next_iteration_def final_confidence_def d confidence_formula_one)
  have f4: "(st_summary st1)\<lparr>confidence := 1\<rparr> =
      \<lparr>inliers = [0, 1, 2, 3, 4], num_iterations = 1,
           num_hypotheses = num_hypotheses s + 1, confidence = 1\<rparr>"
    by (rule RansacSummary.equality)
       (simp_all add: st1_def next_iteration_def d translated_Solution_def)
  from Estimate_completes [OF len loop [unfolded st0_def]]
  show ?thesis by (simp add: st0_def [symmetric] f1 f2 f3 f4)
qed

lemma UpdateBestSolution_test_all_inliers:
  assumes "0 < reprojection_error_thresh (params_m this)"
  shows "UpdateBestSolution test_env this (test_correspondences 0) identity_Solution
           identity_Solution [] = Inr (1, identity_Solution, [0, 1, 2, 3, 4])"
proof -
  from assms have "(0 - 0) * (0 - 0) <
      reprojection_error_thresh (params_m this) * reprojection_error_thresh (params_m this)"
    by simp
  from UpdateBestSolution_translated_all [OF test_env_simps(2) this]
  show ?thesis by (simp add: identity_Solution_translated)
qed

text \<open>
  With the identity solver and \<open>d = 0\<close>: the first hypothesis has all five inliers, the
  ratio is \<open>1\<close>, \<open>ComputeMaxIterations\<close> returns \<open>min_iterations = 0\<close> and the loop ends
  after one iteration.
\<close>

lemma Estimate_test_all_inliers:
  "Estimate test_env test_estimator () (test_correspondences 0) (Some s) =
     Inr (identity_Solution,
          \<lparr>inliers = [0, 1, 2, 3, 4], num_iterations = 1,
           num_hypotheses = num_hypotheses s + 1, confidence = 1\<rparr>,
          \<lparr>params_m = test_params, prng_m = 4, correspondence_indices_m = [0, 2, 4, 1, 3]\<rparr>)"
  unfolding test_estimator_def identity_Solution_translated
  by (rule Estimate_one_iteration_all_inliers
        [OF test_env_simps(1,2) Sample_counter_first [OF test_env_simps(1)]])
     (simp_all add: test_env_simps identity_Solution_translated test_params_def)

text \<open>
  With the solver that follows the sample: the first call on a fresh estimator draws
  correspondence 0 first, the second call on the same estimator draws correspondence 4
  first.
\<close>

lemma Estimate_shifting_first:
  "Estimate shifting_env wide_estimator () (test_correspondences 0) (Some s) =
     Inr (translated_Solution 0,
          \<lparr>inliers = [0, 1, 2, 3, 4], num_iterations = 1,
           num_hypotheses = num_hypotheses s + 1, confidence = 1\<rparr>,
          \<lparr>params_m = test_params\<lparr>reprojection_error_thresh := 10\<rparr>, prng_m = 4,
           correspondence_indices_m = [0, 2, 4, 1, 3]\<rparr>)"
  unfolding wide_estimator_def
  by (rule Estimate_one_iteration_all_inliers
        [OF shifting_env_simps(1,2) Sample_counter_first [OF shifting_env_simps(1)]])
     (simp_all add: shifting_env_simps first_point_solver_def test_correspondence_def
        test_params_def)

lemma Estimate_shifting_second:
  "Estimate shifting_env
     \<lparr>params_m = test_params\<lparr>reprojection_error_thresh := 10\<rparr>, prng_m = 4,
      correspondence_indices_m = [0, 2, 4, 1, 3]\<rparr> () (test_correspondences 0) (Some s) =
     Inr (translated_Solution (- 4),
          \<lparr>inliers = [0, 1, 2, 3, 4], num_iterations = 1,
           num_hypotheses = num_hypotheses s + 1, confidence = 1\<rparr>,
          \<lparr>params_m = test_params\<lparr>reprojection_error_thresh := 10\<rparr>, prng_m = 8,
           correspondence_indices_m = [4, 2, 1, 0, 3]\<rparr>)"
  by (rule Estimate_one_iteration_all_inliers
        [OF shifting_env_simps(1,2) Sample_counter_second [OF shifting_env_simps(1)]])
     (simp_all add: shifting_env_simps first_point_solver_def test_correspondence_def
        test_params_def)

text \<open>
  With the identity solver and \<open>d = 100\<close> no correspondence is an inlier. The ratio
  \<open>UpdateBestSolution\<close> returns is machine epsilon, and the quotient
  \<open>log_failure_prob / log_prob\<close> is at least \<open>2 ^ 51\<close>: it does not fit an \<^verbatim>\<open>int\<close>.
\<close>

lemma failure_quotient_large:
  "2 ^ 51 \<le> ln (1 / 100) / (ln (1 - DBL_EPSILON ^ kMinimalSampleSize) - DBL_EPSILON)"
proof -
  define x :: real where "x = DBL_EPSILON ^ kMinimalSampleSize"
  have x: "x = 1 / 2 ^ 208" by (simp add: x_def DBL_EPSILON_def kMinimalSampleSize_def power_divide)
  have x0: "0 \<le> x" and x1: "x \<le> 1 / 2" and x2: "x < 1" by (simp_all add: x)
  have up: "ln (1 - x) \<le> - x" using ln_one_minus_pos_upper_bound [OF x0 x2] .
  have lo: "- x - 2 * x\<^sup>2 \<le> ln (1 - x)" using ln_one_minus_pos_lower_bound [OF x0 x1] .
  have small: "x + 2 * x\<^sup>2 \<le> DBL_EPSILON" by (simp add: x DBL_EPSILON_def power2_eq_square)
  define D where "D = ln (1 - x) - DBL_EPSILON"
  have Dneg: "D < 0" using up x0 DBL_EPSILON_pos by (simp add: D_def)
  have Dlo: "- (1 / 2 ^ 51) \<le> D"
  proof -
    have "- (2 * DBL_EPSILON) \<le> D" using lo small by (simp add: D_def)
    then show ?thesis by (simp add: DBL_EPSILON_def)
  qed
  have "exp (1::real) \<le> 100" using exp_le by linarith
  then have "1 \<le> ln (100::real)" by (simp add: ln_ge_iff)
  then have N: "ln (1 / 100 :: real) \<le> - 1" by (simp add: ln_div)
  have "ln (1 / 100 :: real) \<le> 2 ^ 51 * D"
  proof -
    have "- 1 \<le> 2 ^ 51 * D" using Dlo by (simp add: field_simps)
    with N show ?thesis by linarith
  qed
  then have "2 ^ 51 \<le> ln (1 / 100) / D" using Dneg by (simp add: neg_le_divide_eq)
  then show ?thesis by (simp add: D_def x_def)
qed

lemma ComputeMaxIterations_epsilon:
  assumes "CastUndefined env = (\<lambda>a. INT_MIN)"
  shows "ComputeMaxIterations env this DBL_EPSILON (ln (1 / 100)) =
         Inr (clamp INT_MIN (min_iterations (params_m this)) (max_iterations (params_m this)))"
proof -
  let ?q = "ln (1 / 100) / (ln (1 - DBL_EPSILON ^ kMinimalSampleSize) - DBL_EPSILON)"
  have "(2::int) ^ 51 \<le> \<lfloor>?q\<rfloor>" using failure_quotient_large by (simp add: le_floor_iff)
  moreover have "0 \<le> ?q" using failure_quotient_large by (smt (verit) zero_le_power)
  ultimately have big: "\<not> trunc ?q \<le> INT_MAX" by (simp add: trunc_def INT_MAX_def)
  have e1: "DBL_EPSILON \<noteq> 1" by (simp add: DBL_EPSILON_def)
  have bad: "0 < 1 - DBL_EPSILON ^ kMinimalSampleSize"
    by (simp add: DBL_EPSILON_def kMinimalSampleSize_def power_divide)
  show ?thesis
    using big e1 bad DBL_EPSILON_pos
    by (simp add: ComputeMaxIterations_def static_cast_int_def assms Let_def)
qed

lemma Estimate_one_iteration_no_inliers:
  assumes env: "UniformInt env = counter_UniformInt" "ProjectPoint env = pinhole_ProjectPoint"
    and sample: "Sample env \<lparr>params_m = p, prng_m = g, correspondence_indices_m = [0, 1, 2, 3, 4]\<rparr>
                   (test_correspondences d) = Inr (sample, this')"
    and solver: "EstimateSimilarityTransformation env
           ((ComputeInputDatum env sample)\<lparr>priors := the_priors\<rparr>)
           \<lparr>rotations = [], translations_v = [], scales = []\<rparr> = (True, translated_Solution t)"
    and far: "\<not> (t - d) * (t - d) < reprojection_error_thresh p * reprojection_error_thresh p"
    and m: "ComputeMaxIterations env this' DBL_EPSILON (ln (failure_probability p)) = Inr m"
    and its: "0 < max_iterations p" "m \<le> 1"
  shows "Estimate env \<lparr>params_m = p, prng_m = g, correspondence_indices_m = idx\<rparr> the_priors
           (test_correspondences d) (Some s) =
         Inr (identity_Solution,
              \<lparr>inliers = [], num_iterations = 1,
               num_hypotheses = num_hypotheses s + 1, confidence = 0\<rparr>,
              this')"
proof -
  let ?cs = "test_correspondences d"
  let ?est = "\<lparr>params_m = p, prng_m = g, correspondence_indices_m = idx\<rparr>"
  let ?lg = "ln (failure_probability p)"
  define st0 where "st0 = Estimate_init ?est ?cs s"
  have p': "params_m this' = p" using Sample_params_m [OF sample] by simp
  have a: "st_this st0 = \<lparr>params_m = p, prng_m = g, correspondence_indices_m = [0, 1, 2, 3, 4]\<rparr>"
    and h: "st_hypotheses st0 = \<lparr>rotations = [], translations_v = [], scales = []\<rparr>"
    and b: "st_best_solution st0 = identity_Solution"
    and c: "inliers (st_summary st0) = []"
    and d: "num_iterations (st_summary st0) = 0" "st_max_iterations st0 = max_iterations p"
       "num_hypotheses (st_summary st0) = num_hypotheses s"
    by (simp_all add: st0_def Estimate_init_five)
  define st1 where "st1 = next_iteration
            (st0\<lparr>st_this := this', st_hypotheses := translated_Solution t,
                 st_best_solution := identity_Solution,
                 st_summary := (st_summary st0)
                   \<lparr>num_hypotheses := num_hypotheses (st_summary st0) +
                                        int (length (rotations (translated_Solution t))),
                    inliers := []\<rparr>,
                 st_inlier_ratio := DBL_EPSILON, st_max_iterations := m\<rparr>)"
  have u: "UpdateBestSolution env this' ?cs (translated_Solution t) (st_best_solution st0)
             (inliers (st_summary st0)) = Inr (DBL_EPSILON, identity_Solution, [])"
    using UpdateBestSolution_translated_none [OF env(2), of t d this'] far p' by (simp add: b c)
  have s1: "Sample env (st_this st0) ?cs = Inr (sample, this')" by (simp add: a sample)
  have s2: "EstimateSimilarityTransformation env
           ((ComputeInputDatum env sample)\<lparr>priors := the_priors\<rparr>) (st_hypotheses st0)
         = (True, translated_Solution t)" by (simp add: h solver)
  have step: "Estimate_iteration env the_priors ?cs ?lg st0 = Inr st1"
    unfolding st1_def by (rule Estimate_iteration_scored [OF s1 s2 u m])
  have loop: "Estimate_loop env the_priors ?cs ?lg st0 = Inr st1"
    by (rule Estimate_loop_single [OF _ step])
       (insert its, simp_all add: d st1_def next_iteration_def)
  have len: "kMinimalSampleSize \<le> length ?cs"
    by (simp add: kMinimalSampleSize_def test_correspondences_def)
  have f1: "st_best_solution st1 = identity_Solution"
    and f2: "st_this st1 = this'"
    by (simp_all add: st1_def next_iteration_def)
  have "DBL_EPSILON ^ kMinimalSampleSize \<le> 1 / 2 ^ 54"
    by (simp add: DBL_EPSILON_def kMinimalSampleSize_def power_divide)
  then have "confidence_formula DBL_EPSILON n = 0" for n
    using DBL_EPSILON_pos by (intro confidence_formula_small) simp_all
  then have f3: "final_confidence st1 = 0"
    by (simp add: st1_def next_iteration_def final_confidence_def)
  have f4: "(st_summary st1)\<lparr>confidence := 0\<rparr> =
      \<lparr>inliers = [], num_iterations = 1,
           num_hypotheses = num_hypotheses s + 1, confidence = 0\<rparr>"
    by (rule RansacSummary.equality)
       (simp_all add: st1_def next_iteration_def d translated_Solution_def)
  from Estimate_completes [OF len, of env the_priors ?est s st1] loop
  show ?thesis by (simp add: st0_def [symmetric] f1 f2 f3 f4)
qed

lemma Estimate_test_no_inliers:
  "Estimate test_env test_estimator () (test_correspondences 100) (Some s) =
     Inr (identity_Solution,
          \<lparr>inliers = [], num_iterations = 1, num_hypotheses = num_hypotheses s + 1,
           confidence = 0\<rparr>,
          \<lparr>params_m = test_params, prng_m = 4, correspondence_indices_m = [0, 2, 4, 1, 3]\<rparr>)"
proof -
  let ?this' = "\<lparr>params_m = test_params, prng_m = 4::nat,
                 correspondence_indices_m = [0, 2, 4, 1, 3]\<rparr>"
  have m: "ComputeMaxIterations test_env ?this' DBL_EPSILON (ln (failure_probability test_params))
           = Inr 0"
    using ComputeMaxIterations_epsilon [OF test_env_simps(5), of ?this']
    by (simp add: clamp_def INT_MIN_def test_params_def)
  show ?thesis
    unfolding test_estimator_def
    by (rule Estimate_one_iteration_no_inliers
          [where t = 0 and m = 0,
           OF test_env_simps(1,2) Sample_counter_first [OF test_env_simps(1)] _ _ m])
       (simp_all add: test_env_simps identity_Solution_translated test_params_def)
qed

text \<open>
  Claim C9. The index array is a permutation of \<open>0, ..., n - 1\<close> throughout a run: the
  reset at the start of \<open>Estimate\<close> makes it one, every call of \<open>Sample\<close> that returns
  keeps it one (it only swaps entries), hence every iteration of the loop does, and the
  array a completed \<open>Estimate\<close> leaves behind is one.
\<close>

theorem index_array_is_permutation:
  "is_permutation (correspondence_indices_m (st_this (Estimate_init this cs summary_in))) (length cs) \<and>
   (is_permutation (correspondence_indices_m this) n \<and> Sample env this cs = Inr (sample, this1)
      \<longrightarrow> is_permutation (correspondence_indices_m this1) n) \<and>
   (is_permutation (correspondence_indices_m (st_this st)) n \<and>
    Estimate_iteration env the_priors cs lg st = Inr st'
      \<longrightarrow> is_permutation (correspondence_indices_m (st_this st')) n) \<and>
   (Estimate env this the_priors cs (Some summary_in) = Inr (sol, sm, this')
      \<longrightarrow> is_permutation (correspondence_indices_m this') (length cs))"
proof (intro conjI impI)
  show "is_permutation (correspondence_indices_m (st_this (Estimate_init this cs summary_in))) (length cs)"
    by (rule Estimate_init_is_permutation)
next
  assume "is_permutation (correspondence_indices_m this) n \<and> Sample env this cs = Inr (sample, this1)"
  then show "is_permutation (correspondence_indices_m this1) n"
    by (elim conjE) (rule Sample_is_permutation)
next
  assume "is_permutation (correspondence_indices_m (st_this st)) n \<and>
    Estimate_iteration env the_priors cs lg st = Inr st'"
  then show "is_permutation (correspondence_indices_m (st_this st')) n"
    by (elim conjE) (rule Estimate_iteration_is_permutation)
next
  assume "Estimate env this the_priors cs (Some summary_in) = Inr (sol, sm, this')"
  then show "is_permutation (correspondence_indices_m this') (length cs)"
    by (rule Estimate_is_permutation)
qed

theorem index_array_is_permutation_witness:
  "is_permutation
     (correspondence_indices_m (st_this (Estimate_init test_estimator (test_correspondences 0)
        fresh_summary))) (length (test_correspondences 0)) \<and>
   is_permutation [0, 2, 4, 1, 3] (length (test_correspondences 0))"
proof -
  note t = index_array_is_permutation
    [where env = test_env and this = test_estimator and the_priors = "()"
       and cs = "test_correspondences 0" and summary_in = fresh_summary
       and sol = identity_Solution
       and sm = "\<lparr>inliers = [0, 1, 2, 3, 4], num_iterations = 1,
                  num_hypotheses = num_hypotheses fresh_summary + 1, confidence = 1\<rparr>"
       and this' = "\<lparr>params_m = test_params, prng_m = 4,
                     correspondence_indices_m = [0, 2, 4, 1, 3]\<rparr>"]
  note a = t [THEN conjunct1]
  from t [THEN conjunct2, THEN conjunct2, THEN conjunct2, THEN mp,
          OF Estimate_test_all_inliers [of fresh_summary]]
  have "is_permutation [0, 2, 4, 1, 3] (length (test_correspondences 0))"
    by simp
  with a show ?thesis by simp
qed

subsection \<open>The check of the inlier ratio\<close>

lemma RandInt_error: "RandInt env this a b = Inl e \<Longrightarrow> e = EmptyDistributionRange"
  by (auto simp: RandInt_def split: if_splits prod.splits)

lemma Sample_loop_error:
  "Sample_loop env cs i this sample = Inl e \<Longrightarrow> e = EmptyDistributionRange \<or> e = IndexOutOfRange"
proof (induction env cs i this sample rule: Sample_loop.induct)
  case (1 env cs i this sample)
  show ?case
  proof (cases "i < kMinimalSampleSize")
    case False
    with "1.prems" show ?thesis by (simp add: Sample_loop.simps)
  next
    case True
    show ?thesis
    proof (cases "RandInt env this (int i) (int (length cs) - 1)")
      case (Inl e')
      with "1.prems" True have "e = e'" by (subst (asm) Sample_loop.simps) simp
      with Inl show ?thesis by (auto dest: RandInt_error)
    next
      case (Inr p)
      obtain r this1 where p: "p = (r, this1)" by (cases p)
      with Inr have r: "RandInt env this (int i) (int (length cs) - 1) = Inr (r, this1)" by simp
      show ?thesis
      proof (cases "in_range (correspondence_indices_m this1) (int i) \<and>
                in_range (correspondence_indices_m this1) r \<and>
                in_range cs (swap (correspondence_indices_m this1) i (nat r) ! i)")
        case False
        with "1.prems" True r show ?thesis
          by (subst (asm) Sample_loop.simps) (auto simp: Let_def split: if_splits)
      next
        case ok: True
        with "1.prems" True r have
          "Sample_loop env cs (Suc i)
            (this1\<lparr>correspondence_indices_m := swap (correspondence_indices_m this1) i (nat r)\<rparr>)
            (sample @ [cs ! nat (swap (correspondence_indices_m this1) i (nat r) ! i)]) = Inl e"
          by (subst (asm) Sample_loop.simps) (simp add: Let_def)
        from "1.IH" [OF True r _ _ refl refl _ this] ok show ?thesis by simp
      qed
    qed
  qed
qed

lemma UpdateBestSolution_loop_error:
  "UpdateBestSolution_loop env this cs sol i bs bi r = Inl e \<Longrightarrow> e = IndexOutOfRange"
proof (induction env this cs sol i bs bi r rule: UpdateBestSolution_loop.induct)
  case (1 env this cs sol i bs bi r)
  let ?inl = "hypothesis_inliers env this cs sol i"
  show ?case
  proof (cases "i < length (rotations sol) \<and> i < length (translations_v sol) \<and> i < length (scales sol)")
    case False
    with "1.prems" show ?thesis
      by (subst (asm) UpdateBestSolution_loop.simps) (auto split: if_splits)
  next
    case True
    then have t: "i < length (rotations sol)"
      and rng: "i < length (translations_v sol) \<and> i < length (scales sol)" by simp_all
    show ?thesis
    proof (cases "length bi < length ?inl")
      case better: True
      show ?thesis
      proof (cases "rotations bs \<noteq> [] \<and> translations_v bs \<noteq> [] \<and> scales bs \<noteq> []")
        case False
        with "1.prems" True better show ?thesis
          by (subst (asm) UpdateBestSolution_loop.simps) (auto simp: Let_def split: if_splits)
      next
        case ne: True
        with "1.prems" True better have
          "UpdateBestSolution_loop env this cs sol (Suc i)
             (bs\<lparr> rotations := (rotations bs)[0 := rotations sol ! i],
                  translations_v := (translations_v bs)[0 := translations_v sol ! i],
                  scales := (scales bs)[0 := scales sol ! i] \<rparr>)
             ?inl (real (length ?inl) / real (length cs)) = Inl e"
          by (subst (asm) UpdateBestSolution_loop.simps) (simp add: Let_def)
        from "1.IH"(1) [OF t rng refl better ne this] show ?thesis .
      qed
    next
      case worse: False
      with "1.prems" True have
        "UpdateBestSolution_loop env this cs sol (Suc i) bs bi r = Inl e"
        by (subst (asm) UpdateBestSolution_loop.simps) (simp add: Let_def)
      from "1.IH"(2) [OF t rng refl worse this] show ?thesis .
    qed
  qed
qed

lemma ComputeMaxIterations_error:
  "ComputeMaxIterations env this r lg = Inl e \<Longrightarrow> \<not> 0 < r"
  by (auto simp: ComputeMaxIterations_def Let_def split: if_splits)

lemma Estimate_iteration_no_ratio_check:
  assumes "cs \<noteq> []"
  shows "Estimate_iteration env the_priors cs lg st \<noteq> Inl CheckInlierRatioGT0"
proof
  assume a: "Estimate_iteration env the_priors cs lg st = Inl CheckInlierRatioGT0"
  show False
  proof (cases "Sample env (st_this st) cs")
    case (Inl e)
    with a have "e = CheckInlierRatioGT0" by (simp add: Estimate_iteration_def)
    with Inl Sample_loop_error show False unfolding Sample_def by fastforce
  next
    case (Inr p)
    obtain sample this' where p: "p = (sample, this')" by (cases p)
    obtain ok hyps where h: "EstimateSimilarityTransformation env
        ((ComputeInputDatum env sample)\<lparr>priors := the_priors\<rparr>) (st_hypotheses st) = (ok, hyps)"
      by (cases "EstimateSimilarityTransformation env
        ((ComputeInputDatum env sample)\<lparr>priors := the_priors\<rparr>) (st_hypotheses st)")
    show False
    proof (cases ok)
      case False
      with a Inr p h show False by (simp add: Estimate_iteration_def)
    next
      case True
      show False
      proof (cases "UpdateBestSolution env this' cs hyps (st_best_solution st) (inliers (st_summary st))")
        case (Inl e)
        with a Inr p h True have "e = CheckInlierRatioGT0"
          by (simp add: Estimate_iteration_def)
        with Inl UpdateBestSolution_loop_error show False
          unfolding UpdateBestSolution_def by fastforce
      next
        case u: (Inr q)
        obtain ratio best' inl' where q: "q = (ratio, best', inl')" by (cases q)
        from UpdateBestSolution_ratio_pos [OF assms u [unfolded q]] have pos: "0 < ratio" .
        from a Inr p h True u q have "ComputeMaxIterations env this' ratio lg = Inl CheckInlierRatioGT0"
          by (simp add: Estimate_iteration_def Let_def split: sum.splits)
        with pos ComputeMaxIterations_error show False by blast
      qed
    qed
  qed
qed

lemma Estimate_loop_no_ratio_check:
  "cs \<noteq> [] \<Longrightarrow> Estimate_loop env the_priors cs lg st \<noteq> Inl CheckInlierRatioGT0"
proof (induction env the_priors cs lg st rule: Estimate_loop.induct)
  case (1 env the_priors cs lg st)
  show ?case
  proof (cases "num_iterations (st_summary st) < st_max_iterations st")
    case False
    then show ?thesis by (simp add: Estimate_loop.simps)
  next
    case True
    show ?thesis
    proof (cases "Estimate_iteration env the_priors cs lg st")
      case (Inl e)
      with Estimate_iteration_no_ratio_check [OF "1.prems", of env the_priors lg st]
      have "e \<noteq> CheckInlierRatioGT0" by auto
      with True Inl show ?thesis by (subst Estimate_loop.simps) simp
    next
      case (Inr s1)
      from "1.IH" [OF True Inr "1.prems"] True Inr show ?thesis
        by (subst Estimate_loop.simps) simp
    qed
  qed
qed

lemma Estimate_no_ratio_check:
  "Estimate env this the_priors cs summary \<noteq> Inl CheckInlierRatioGT0"
proof (cases "summary = None \<or> \<not> kMinimalSampleSize \<le> length cs")
  case True
  then show ?thesis by (auto simp: Estimate_def split: option.splits)
next
  case False
  then obtain s0 where s: "summary = Some s0" and n: "kMinimalSampleSize \<le> length cs" by auto
  from n have "cs \<noteq> []" by (auto simp: kMinimalSampleSize_def)
  from Estimate_loop_no_ratio_check [OF this, of env the_priors
         "ln (failure_probability (params_m this))" "Estimate_init this cs s0"] s n
  show ?thesis
    by (auto simp: Estimate_def Let_def split: sum.splits)
qed

lemma UpdateBestSolution_ratio_ge_epsilon:
  assumes "cs \<noteq> []" and "real (length cs) \<le> 2 ^ 52"
    and "UpdateBestSolution env this cs sol bs bi = Inr (ratio, bs', bi')"
  shows "DBL_EPSILON \<le> ratio"
proof -
  from assms(1) have n: "0 < real (length cs)" by simp
  from UpdateBestSolution_loop_char [OF assms(3) [unfolded UpdateBestSolution_def]]
  have "(length bi < length bi' \<and> ratio = real (length bi') / real (length cs)) \<or>
        ratio = real (length bi) / real (length cs) + DBL_EPSILON"
    by (auto split: if_splits)
  then show ?thesis
  proof
    assume a: "length bi < length bi' \<and> ratio = real (length bi') / real (length cs)"
    then have "1 \<le> real (length bi')" by (cases bi') auto
    then have le: "1 / real (length cs) \<le> real (length bi') / real (length cs)"
      using n by (simp add: divide_right_mono)
    have "DBL_EPSILON = 1 / 2 ^ 52" by (simp add: DBL_EPSILON_def)
    also have "\<dots> \<le> 1 / real (length cs)"
      using n assms(2) by (intro frac_le) simp_all
    also note le
    finally show ?thesis using a by simp
  next
    assume "ratio = real (length bi) / real (length cs) + DBL_EPSILON"
    moreover have "0 \<le> real (length bi) / real (length cs)" by simp
    ultimately show ?thesis by linarith
  qed
qed

text \<open>
  Claim C10. \<open>Estimate\<close> never fails with the check \<open>inlier_ratio > 0\<close> of
  \<open>ComputeMaxIterations\<close>, whatever the collaborators do: the ratio it passes is the one
  \<open>UpdateBestSolution\<close> returned on at least four correspondences, and on any non-empty
  list of at most \<open>2 ^ 52\<close> correspondences that ratio is at least machine epsilon, so
  the check passes.
\<close>

theorem inlier_ratio_check_unreachable:
  "Estimate env this the_priors correspondences summary \<noteq> Inl CheckInlierRatioGT0 \<and>
   (correspondences \<noteq> [] \<and> real (length correspondences) \<le> 2 ^ 52 \<and>
    UpdateBestSolution env this correspondences estimated_solns best_solution best_inliers
      = Inr (ratio, best_solution', best_inliers')
    \<longrightarrow> DBL_EPSILON \<le> ratio \<and>
        ComputeMaxIterations env this ratio lg \<noteq> Inl CheckInlierRatioGT0)"
proof (intro conjI impI)
  show "Estimate env this the_priors correspondences summary \<noteq> Inl CheckInlierRatioGT0"
    by (rule Estimate_no_ratio_check)
next
  assume a: "correspondences \<noteq> [] \<and> real (length correspondences) \<le> 2 ^ 52 \<and>
    UpdateBestSolution env this correspondences estimated_solns best_solution best_inliers
      = Inr (ratio, best_solution', best_inliers')"
  then show "DBL_EPSILON \<le> ratio"
    by (elim conjE) (rule UpdateBestSolution_ratio_ge_epsilon)
  with DBL_EPSILON_pos have "0 < ratio" by linarith
  then show "ComputeMaxIterations env this ratio lg \<noteq> Inl CheckInlierRatioGT0"
    using ComputeMaxIterations_error by blast
qed

theorem inlier_ratio_check_unreachable_witness:
  "Estimate test_env test_estimator () (test_correspondences 0) (Some fresh_summary)
     \<noteq> Inl CheckInlierRatioGT0 \<and>
   DBL_EPSILON \<le> 1 \<and>
   ComputeMaxIterations test_env test_estimator 1 0 \<noteq> Inl CheckInlierRatioGT0"
proof -
  note t = inlier_ratio_check_unreachable
    [where env = test_env and this = test_estimator and the_priors = "()"
       and correspondences = "test_correspondences 0" and summary = "Some fresh_summary"
       and estimated_solns = identity_Solution and best_solution = identity_Solution
       and best_inliers = "[]" and ratio = 1 and best_solution' = identity_Solution
       and best_inliers' = "[0, 1, 2, 3, 4]" and lg = 0]
  have thr: "0 < reprojection_error_thresh (params_m test_estimator)"
    by (simp add: test_estimator_def test_params_def)
  have h: "test_correspondences 0 \<noteq> [] \<and> real (length (test_correspondences 0)) \<le> 2 ^ 52 \<and>
    UpdateBestSolution test_env test_estimator (test_correspondences 0) identity_Solution
      identity_Solution [] = Inr (1, identity_Solution, [0, 1, 2, 3, 4])"
    using UpdateBestSolution_test_all_inliers [OF thr] by (simp add: test_correspondences_def)
  from t h show ?thesis by blast
qed

subsection \<open>The final confidence\<close>

text \<open>
  A hypothesis has no more inliers than there are correspondences, so a ratio that
  \<^verbatim>\<open>UpdateBestSolution\<close> computes anew is at most \<open>1\<close>; the ratio it returns without an
  improvement is the one of the inliers it was given, plus epsilon.
\<close>

lemma inliers_loop_length:
  "length (inliers_loop env sq_thresh rotation translation scale cs j inl)
     \<le> length inl + length cs"
proof (induction cs arbitrary: j inl)
  case Nil
  show ?case by simp
next
  case (Cons c cs)
  have a: "length (inliers_loop env sq_thresh rotation translation scale cs (j + 1) inl)
             \<le> length inl + length cs" by (rule Cons.IH)
  have b: "length (inliers_loop env sq_thresh rotation translation scale cs (j + 1) (inl @ [j]))
             \<le> length (inl @ [j]) + length cs" by (rule Cons.IH)
  from a b show ?case by (auto simp: Let_def split: prod.splits)
qed

lemma hypothesis_inliers_length:
  "length (hypothesis_inliers env this cs sol k) \<le> length cs"
  using inliers_loop_length [of env _ _ _ _ cs 0 "[]"] by (simp add: hypothesis_inliers_def)

lemma UpdateBestSolution_ratio_cases:
  assumes "cs \<noteq> []" and "length bi \<le> length cs"
    and "UpdateBestSolution env this cs sol bs bi = Inr (ratio, bs', bi')"
  shows "length bi' \<le> length cs \<and>
         ((bi' \<noteq> [] \<and> ratio \<le> 1) \<or>
          (bi' = bi \<and> ratio = real (length bi) / real (length cs) + DBL_EPSILON))"
proof -
  from assms(1) have n: "0 < real (length cs)" by simp
  note c = UpdateBestSolution_loop_char [OF assms(3) [unfolded UpdateBestSolution_def]]
  show ?thesis
  proof (cases "\<exists>k. 0 \<le> k \<and> k < length (rotations sol) \<and>
           length bi < length (hypothesis_inliers env this cs sol k)")
    case True
    with c obtain k where lt: "length bi < length bi'"
      and r: "ratio = real (length bi') / real (length cs)"
      and k: "bi' = hypothesis_inliers env this cs sol k" by auto
    from k have le: "length bi' \<le> length cs" by (simp add: hypothesis_inliers_length)
    then have "real (length bi') / real (length cs) \<le> 1" using n by simp
    moreover from lt have "bi' \<noteq> []" by auto
    ultimately show ?thesis using le r by simp
  next
    case False
    with c have "ratio = real (length bi) / real (length cs) + DBL_EPSILON \<and> bi' = bi"
      by simp
    with assms(2) show ?thesis by simp
  qed
qed

lemma Estimate_init_ratio_invariant:
  "ratio_invariant (length cs) (Estimate_init this cs summary_in)"
  by (simp add: ratio_invariant_def Estimate_init_def DBL_EPSILON_def)

lemma Estimate_iteration_ratio_invariant:
  assumes "cs \<noteq> []" and inv: "ratio_invariant (length cs) st"
    and step: "Estimate_iteration env the_priors cs lg st = Inr st'"
  shows "ratio_invariant (length cs) st'"
proof -
  from step obtain sample this' where
    s: "Sample env (st_this st) cs = Inr (sample, this')"
    by (auto simp: Estimate_iteration_def split: sum.splits)
  obtain ok hyps where h: "EstimateSimilarityTransformation env
      ((ComputeInputDatum env sample)\<lparr>priors := the_priors\<rparr>) (st_hypotheses st) = (ok, hyps)"
    by (cases "EstimateSimilarityTransformation env
      ((ComputeInputDatum env sample)\<lparr>priors := the_priors\<rparr>) (st_hypotheses st)")
  show ?thesis
  proof (cases ok)
    case False
    with step s h have "st' = next_iteration (st\<lparr>st_this := this', st_hypotheses := hyps\<rparr>)"
      by (simp add: Estimate_iteration_def)
    with inv show ?thesis by (auto simp: ratio_invariant_def next_iteration_def)
  next
    case True
    with step s h obtain ratio best' inl' where
      u: "UpdateBestSolution env this' cs hyps (st_best_solution st) (inliers (st_summary st))
            = Inr (ratio, best', inl')"
      and r: "st_inlier_ratio st' = ratio"
      and i: "inliers (st_summary st') = inl'"
      and k: "num_iterations (st_summary st') = num_iterations (st_summary st) + 1"
      by (auto simp: Estimate_iteration_def Let_def next_iteration_def split: sum.splits)
    from inv have le: "length (inliers (st_summary st)) \<le> length cs"
      and n0: "0 \<le> num_iterations (st_summary st)"
      and n1: "inliers (st_summary st) \<noteq> [] \<longrightarrow> 1 \<le> num_iterations (st_summary st)"
      by (simp_all add: ratio_invariant_def)
    from assms(1) have n: "0 < real (length cs)" by simp
    have pos: "0 < ratio" using assms(1) u by (rule UpdateBestSolution_ratio_pos)
    from UpdateBestSolution_ratio_cases [OF assms(1) le u]
    have le': "length inl' \<le> length cs"
      and cases: "(inl' \<noteq> [] \<and> ratio \<le> 1) \<or>
          (inl' = inliers (st_summary st) \<and>
           ratio = real (length (inliers (st_summary st))) / real (length cs) + DBL_EPSILON)"
      by simp_all
    from cases show ?thesis
    proof
      assume "inl' \<noteq> [] \<and> ratio \<le> 1"
      with pos le' n0 show ?thesis
        using DBL_EPSILON_pos by (simp add: ratio_invariant_def r i k)
    next
      assume a: "inl' = inliers (st_summary st) \<and>
           ratio = real (length (inliers (st_summary st))) / real (length cs) + DBL_EPSILON"
      have "real (length (inliers (st_summary st))) / real (length cs) \<le> 1"
        using le n by simp
      with a have up: "ratio \<le> 1 + DBL_EPSILON" by simp
      have big: "2 \<le> num_iterations (st_summary st) + 1" if "1 < ratio"
      proof -
        have "inliers (st_summary st) \<noteq> []"
        proof
          assume "inliers (st_summary st) = []"
          with a have "ratio = DBL_EPSILON" by simp
          with that show False by (simp add: DBL_EPSILON_def)
        qed
        with n1 show ?thesis by simp
      qed
      from pos up le' n0 n1 a big show ?thesis
        by (simp add: ratio_invariant_def r i k)
    qed
  qed
qed

lemma Estimate_loop_ratio_invariant:
  assumes "cs \<noteq> []"
    and run: "Estimate_loop env the_priors cs lg (Estimate_init this cs summary_in) = Inr st"
  shows "ratio_invariant (length cs) st"
proof (rule Estimate_loop_invariant [OF run, where I = "ratio_invariant (length cs)"])
  show "ratio_invariant (length cs) (Estimate_init this cs summary_in)"
    by (rule Estimate_init_ratio_invariant)
next
  fix s s'
  assume "ratio_invariant (length cs) s" "Estimate_iteration env the_priors cs lg s = Inr s'"
  with assms(1) show "ratio_invariant (length cs) s'"
    by (rule Estimate_iteration_ratio_invariant)
qed

lemma final_confidence_bounds:
  assumes "ratio_invariant n st"
  shows "0 \<le> final_confidence st \<and> final_confidence st \<le> 1"
proof -
  from assms have "0 \<le> st_inlier_ratio st" and "st_inlier_ratio st \<le> 1 + DBL_EPSILON"
    and "1 < st_inlier_ratio st \<longrightarrow> 2 \<le> nat (num_iterations (st_summary st))"
    by (auto simp: ratio_invariant_def)
  then show ?thesis unfolding final_confidence_def by (rule confidence_formula_bounds)
qed

lemma final_confidence_one:
  assumes "ratio_invariant n st" and "1 \<le> st_inlier_ratio st"
    and "0 < num_iterations (st_summary st)"
  shows "final_confidence st = 1"
proof (cases "st_inlier_ratio st = 1")
  case True
  with assms(3) show ?thesis by (simp add: final_confidence_def confidence_formula_one)
next
  case False
  with assms(1,2) have "1 < st_inlier_ratio st" and "st_inlier_ratio st \<le> 1 + DBL_EPSILON"
    and "2 \<le> nat (num_iterations (st_summary st))"
    by (auto simp: ratio_invariant_def)
  then show ?thesis unfolding final_confidence_def by (rule confidence_formula_above_one)
qed

text \<open>
  Two iterations on the test input: the first finds all five correspondences to be
  inliers, the second does not improve on them and returns the ratio \<open>1 + epsilon\<close>; the
  bound computed for it is the conversion of a NaN, clamped to \<open>min_iterations = 2\<close>.
\<close>

lemma UpdateBestSolution_translated_again:
  assumes "ProjectPoint env = pinhole_ProjectPoint"
  shows "UpdateBestSolution env this (test_correspondences d) (translated_Solution t)
           bs [0, 1, 2, 3, 4] = Inr (1 + DBL_EPSILON, bs, [0, 1, 2, 3, 4])"
proof -
  have n: "length (test_correspondences d) = 5" "test_correspondences d \<noteq> []"
    by (simp_all add: test_correspondences_def)
  show ?thesis
    by (simp add: UpdateBestSolution_def UpdateBestSolution_loop.simps
          hypothesis_inliers_translated [OF assms(1)])
       (simp add: translated_Solution_def UpdateBestSolution_loop.simps n)
qed

lemma ComputeMaxIterations_above_one:
  assumes "CastUndefined env = (\<lambda>a. INT_MIN)"
  shows "ComputeMaxIterations env this (1 + DBL_EPSILON) lg =
         Inr (clamp INT_MIN (min_iterations (params_m this)) (max_iterations (params_m this)))"
proof -
  have "1 < (1 + DBL_EPSILON) ^ kMinimalSampleSize"
    using DBL_EPSILON_pos by (intro one_less_power) (simp_all add: kMinimalSampleSize_def)
  then have bad: "1 - (1 + DBL_EPSILON) ^ kMinimalSampleSize < 0" by simp
  have e: "0 < 1 + DBL_EPSILON" "DBL_EPSILON \<noteq> 0" using DBL_EPSILON_pos by simp_all
  show ?thesis
    using bad e by (simp add: ComputeMaxIterations_def static_cast_int_def assms Let_def)
qed

lemma Estimate_loop_test_two_rounds:
  "\<exists>st. Estimate_loop test_env () (test_correspondences 0) lg
          (Estimate_init patient_estimator (test_correspondences 0) s) = Inr st \<and>
        st_inlier_ratio st = 1 + DBL_EPSILON \<and>
        num_iterations (st_summary st) = 2 \<and>
        inliers (st_summary st) = [0, 1, 2, 3, 4]"
proof -
  let ?cs = "test_correspondences 0"
  let ?p = "test_params\<lparr>min_iterations := 2\<rparr>"
  let ?this1 = "\<lparr>params_m = ?p, prng_m = 4::nat, correspondence_indices_m = [0, 2, 4, 1, 3]\<rparr>"
  let ?this2 = "\<lparr>params_m = ?p, prng_m = 8::nat, correspondence_indices_m = [3, 4, 2, 0, 1]\<rparr>"
  define st0 where "st0 = Estimate_init patient_estimator ?cs s"
  have a: "st_this st0 = \<lparr>params_m = ?p, prng_m = 0, correspondence_indices_m = [0, 1, 2, 3, 4]\<rparr>"
    and h: "st_hypotheses st0 = \<lparr>rotations = [], translations_v = [], scales = []\<rparr>"
    and b: "st_best_solution st0 = identity_Solution"
    and c: "inliers (st_summary st0) = []"
    and d: "num_iterations (st_summary st0) = 0" "st_max_iterations st0 = 3"
    by (simp_all add: st0_def patient_estimator_def Estimate_init_five test_params_def)
  define st1 where "st1 = next_iteration
            (st0\<lparr>st_this := ?this1, st_hypotheses := identity_Solution,
                 st_best_solution := identity_Solution,
                 st_summary := (st_summary st0)
                   \<lparr>num_hypotheses := num_hypotheses (st_summary st0) +
                                        int (length (rotations identity_Solution)),
                    inliers := [0, 1, 2, 3, 4]\<rparr>,
                 st_inlier_ratio := 1, st_max_iterations := 2\<rparr>)"
  have s1: "Sample test_env (st_this st0) ?cs =
      Inr ([test_correspondence 0 0, test_correspondence 2 0, test_correspondence 4 0,
            test_correspondence 1 0], ?this1)"
    by (simp only: a Sample_counter_first [OF test_env_simps(1)])
  have e1: "EstimateSimilarityTransformation test_env
           ((ComputeInputDatum test_env sample)\<lparr>priors := ()\<rparr>) hyps
         = (True, identity_Solution)" for sample hyps
    by (simp add: test_env_simps)
  have u1: "UpdateBestSolution test_env ?this1 ?cs identity_Solution (st_best_solution st0)
             (inliers (st_summary st0)) = Inr (1, identity_Solution, [0, 1, 2, 3, 4])"
    unfolding b c by (rule UpdateBestSolution_test_all_inliers) (simp add: test_params_def)
  have m1: "ComputeMaxIterations test_env ?this1 1 lg = Inr 2"
    by (simp add: ComputeMaxIterations_one)
  have step1: "Estimate_iteration test_env () ?cs lg st0 = Inr st1"
    unfolding st1_def by (rule Estimate_iteration_scored [OF s1 e1 u1 m1])
  have a1: "st_this st1 = ?this1"
    and b1: "st_best_solution st1 = identity_Solution"
    and c1: "inliers (st_summary st1) = [0, 1, 2, 3, 4]"
    and d1: "num_iterations (st_summary st1) = 1" "st_max_iterations st1 = 2"
    by (simp_all add: st1_def next_iteration_def d)
  define st2 where "st2 = next_iteration
            (st1\<lparr>st_this := ?this2, st_hypotheses := identity_Solution,
                 st_best_solution := identity_Solution,
                 st_summary := (st_summary st1)
                   \<lparr>num_hypotheses := num_hypotheses (st_summary st1) +
                                        int (length (rotations identity_Solution)),
                    inliers := [0, 1, 2, 3, 4]\<rparr>,
                 st_inlier_ratio := 1 + DBL_EPSILON, st_max_iterations := 2\<rparr>)"
  have s2: "Sample test_env (st_this st1) ?cs =
      Inr ([test_correspondence 3 0, test_correspondence 4 0, test_correspondence 2 0,
            test_correspondence 0 0], ?this2)"
    by (simp only: a1 Sample_counter_again [OF test_env_simps(1)])
  have u2: "UpdateBestSolution test_env ?this2 ?cs identity_Solution (st_best_solution st1)
             (inliers (st_summary st1)) = Inr (1 + DBL_EPSILON, identity_Solution, [0, 1, 2, 3, 4])"
    unfolding b1 c1 identity_Solution_translated
    by (rule UpdateBestSolution_translated_again [OF test_env_simps(2)])
  have m2: "ComputeMaxIterations test_env ?this2 (1 + DBL_EPSILON) lg = Inr 2"
    using ComputeMaxIterations_above_one [OF test_env_simps(5), of ?this2 lg]
    by (simp add: clamp_def INT_MIN_def test_params_def)
  have step2: "Estimate_iteration test_env () ?cs lg st1 = Inr st2"
    unfolding st2_def by (rule Estimate_iteration_scored [OF s2 e1 u2 m2])
  have d2: "num_iterations (st_summary st2) = 2" "st_max_iterations st2 = 2"
    and r2: "st_inlier_ratio st2 = 1 + DBL_EPSILON"
    and c2: "inliers (st_summary st2) = [0, 1, 2, 3, 4]"
    by (simp_all add: st2_def next_iteration_def d1)
  have "Estimate_loop test_env () ?cs lg st0 = Inr st2"
    using step1 step2 d d1 d2
    by (simp add: Estimate_loop.simps [of test_env "()" ?cs lg st0]
          Estimate_loop.simps [of test_env "()" ?cs lg st1]
          Estimate_loop.simps [of test_env "()" ?cs lg st2])
  with r2 d2 c2 show ?thesis unfolding st0_def by blast
qed

lemma Estimate_test_two_rounds:
  "\<exists>solution summary this'.
     Estimate test_env patient_estimator () (test_correspondences 0) (Some s)
       = Inr (solution, summary, this')"
proof -
  have len: "kMinimalSampleSize \<le> length (test_correspondences 0)"
    by (simp add: kMinimalSampleSize_def test_correspondences_def)
  from Estimate_loop_test_two_rounds obtain st where
    "Estimate_loop test_env () (test_correspondences 0)
       (ln (failure_probability (params_m patient_estimator)))
       (Estimate_init patient_estimator (test_correspondences 0) s) = Inr st" by blast
  from Estimate_completes [OF len this] show ?thesis by blast
qed

text \<open>
  Claim C2, as amended. For every call of \<open>Estimate\<close> that completes, the confidence
  written to the summary is \<open>1 - (1 - r ^ K) ^ iterations\<close> evaluated in double arithmetic
  (each subtraction and each power rounded to the nearest double), for the last inlier
  ratio \<open>r\<close> of the loop and the number of iterations done. The ratio lies in
  \<open>[0, 1 + epsilon]\<close>, and the confidence lies in the closed interval \<open>[0, 1]\<close>. The
  value \<open>1\<close> is reached: it is the confidence whenever \<open>r \<ge> 1\<close> after at least one
  iteration.
\<close>

theorem Estimate_confidence_in_unit_interval:
  assumes "Estimate env this the_priors correspondences (Some summary_in) = Inr (solution, summary, this')"
  shows "\<exists>st. Estimate_loop env the_priors correspondences
                (ln (failure_probability (params_m this)))
                (Estimate_init this correspondences summary_in) = Inr st \<and>
              confidence summary =
                double_minus 1
                  (double_pow (double_minus 1 (double_pow (st_inlier_ratio st) kMinimalSampleSize))
                     (nat (num_iterations summary))) \<and>
              num_iterations summary = num_iterations (st_summary st) \<and>
              0 \<le> st_inlier_ratio st \<and> st_inlier_ratio st \<le> 1 + DBL_EPSILON \<and>
              0 \<le> confidence summary \<and> confidence summary \<le> 1 \<and>
              (1 \<le> st_inlier_ratio st \<and> 0 < num_iterations summary \<longrightarrow> confidence summary = 1)"
proof -
  from assms obtain st where
    run: "Estimate_loop env the_priors correspondences (ln (failure_probability (params_m this)))
           (Estimate_init this correspondences summary_in) = Inr st"
    and sm: "summary = (st_summary st)\<lparr>confidence := final_confidence st\<rparr>"
    and n: "kMinimalSampleSize \<le> length correspondences"
    by (rule Estimate_Inr)
  from n have ne: "correspondences \<noteq> []" by (auto simp: kMinimalSampleSize_def)
  have inv: "ratio_invariant (length correspondences) st"
    using ne run by (rule Estimate_loop_ratio_invariant)
  have c: "confidence summary = final_confidence st"
    and i: "num_iterations summary = num_iterations (st_summary st)" using sm by simp_all
  have e: "confidence summary =
             double_minus 1
               (double_pow (double_minus 1 (double_pow (st_inlier_ratio st) kMinimalSampleSize))
                  (nat (num_iterations summary)))"
    by (simp add: c i final_confidence_def confidence_formula_def)
  from inv have r: "0 \<le> st_inlier_ratio st" "st_inlier_ratio st \<le> 1 + DBL_EPSILON"
    by (simp_all add: ratio_invariant_def)
  have b: "0 \<le> confidence summary" "confidence summary \<le> 1"
    using final_confidence_bounds [OF inv] c by simp_all
  have o: "1 \<le> st_inlier_ratio st \<and> 0 < num_iterations summary \<longrightarrow> confidence summary = 1"
    using final_confidence_one [OF inv] c i by simp
  from run e i r b o show ?thesis by blast
qed

theorem Estimate_confidence_in_unit_interval_witness:
  "\<exists>solution summary this' st.
     Estimate test_env patient_estimator () (test_correspondences 0) (Some fresh_summary)
       = Inr (solution, summary, this') \<and>
     Estimate_loop test_env () (test_correspondences 0)
       (ln (failure_probability (params_m patient_estimator)))
       (Estimate_init patient_estimator (test_correspondences 0) fresh_summary) = Inr st \<and>
     st_inlier_ratio st = 1 + DBL_EPSILON \<and>
     num_iterations summary = 2 \<and>
     confidence summary = 1"
proof -
  from Estimate_test_two_rounds [of fresh_summary] obtain solution summary this' where
    e: "Estimate test_env patient_estimator () (test_correspondences 0) (Some fresh_summary)
       = Inr (solution, summary, this')" by blast
  from Estimate_loop_test_two_rounds
    [of "ln (failure_probability (params_m patient_estimator))" fresh_summary]
  obtain st2 where
    l: "Estimate_loop test_env () (test_correspondences 0)
          (ln (failure_probability (params_m patient_estimator)))
          (Estimate_init patient_estimator (test_correspondences 0) fresh_summary) = Inr st2"
    and r: "st_inlier_ratio st2 = 1 + DBL_EPSILON"
    and n: "num_iterations (st_summary st2) = 2" by blast
  from Estimate_confidence_in_unit_interval [OF e] l r n
  have "num_iterations summary = 2 \<and> confidence summary = 1"
    using DBL_EPSILON_pos by auto
  with e l r show ?thesis by blast
qed

text \<open>
  Claim C2 as stated fails: on the run above (valid parameters, five correspondences, all
  of them inliers of the first hypothesis) the confidence is exactly \<open>1\<close>, which is not
  in \<open>[0, 1)\<close>.
\<close>

theorem Estimate_confidence_reaches_one:
  "\<exists>solution summary this'.
     Estimate test_env test_estimator () (test_correspondences 0) (Some fresh_summary)
       = Inr (solution, summary, this') \<and>
     valid_params (params_m test_estimator) \<and>
     kMinimalSampleSize \<le> length (test_correspondences 0) \<and>
     \<not> confidence summary < 1"
proof -
  have "valid_params (params_m test_estimator)"
    by (simp add: valid_params_def test_estimator_def test_params_def)
  moreover have "kMinimalSampleSize \<le> length (test_correspondences 0)"
    by (simp add: kMinimalSampleSize_def test_correspondences_def)
  ultimately show ?thesis
    using Estimate_test_all_inliers [of fresh_summary] by simp
qed

subsection \<open>The hypothesis counter\<close>

text \<open>
  Claim C1. The claim says the summary a call returns does not depend on what the
  summary held before. The code clears \<open>inliers\<close>, restarts \<open>num_iterations\<close> at zero and
  assigns \<open>confidence\<close>, but it only ever adds to \<open>num_hypotheses\<close>: on the run above a
  summary that comes in with \<open>num_hypotheses = 0\<close> goes out with \<open>1\<close>, and one that comes
  in with \<open>7\<close> goes out with \<open>8\<close>.
\<close>

theorem Estimate_keeps_incoming_num_hypotheses:
  "map_sum id (\<lambda>(solution, summary, this'). num_hypotheses summary)
     (Estimate test_env test_estimator () (test_correspondences 0) (Some fresh_summary))
     = Inr 1 \<and>
   map_sum id (\<lambda>(solution, summary, this'). num_hypotheses summary)
     (Estimate test_env test_estimator () (test_correspondences 0)
        (Some (fresh_summary\<lparr>num_hypotheses := 7\<rparr>)))
     = Inr 8"
  by (simp add: Estimate_test_all_inliers fresh_summary_def)

subsection \<open>Determinism\<close>

lemma Estimate_iteration_with_summary_counts:
  "Estimate_iteration env the_priors cs lg (with_summary_counts d c st) =
   map_sum id (with_summary_counts d c) (Estimate_iteration env the_priors cs lg st)"
  by (simp add: Estimate_iteration_def with_summary_counts_def next_iteration_def Let_def
           split: sum.splits prod.splits)

lemma Estimate_loop_with_summary_counts:
  "Estimate_loop env the_priors cs lg (with_summary_counts d c st) =
   map_sum id (with_summary_counts d c) (Estimate_loop env the_priors cs lg st)"
proof (induction env the_priors cs lg st rule: Estimate_loop.induct)
  case (1 env the_priors cs lg st)
  have cond: "num_iterations (st_summary (with_summary_counts d c st))
                < st_max_iterations (with_summary_counts d c st) \<longleftrightarrow>
              num_iterations (st_summary st) < st_max_iterations st"
    by (simp add: with_summary_counts_def)
  note L = Estimate_loop.simps [of env the_priors cs lg "with_summary_counts d c st"]
  note R = Estimate_loop.simps [of env the_priors cs lg st]
  show ?case
  proof (cases "num_iterations (st_summary st) < st_max_iterations st")
    case False
    with cond show ?thesis by (simp add: L R)
  next
    case True
    show ?thesis
    proof (cases "Estimate_iteration env the_priors cs lg st")
      case (Inl e)
      with True cond show ?thesis
        by (simp add: L R Estimate_iteration_with_summary_counts)
    next
      case (Inr s1)
      from "1.IH" [OF True Inr] True cond Inr show ?thesis
        by (simp add: L R Estimate_iteration_with_summary_counts)
    qed
  qed
qed

lemma final_confidence_with_summary_counts:
  "final_confidence (with_summary_counts d c st) = final_confidence st"
  by (simp add: final_confidence_def with_summary_counts_def)

lemma Estimate_init_with_summary_counts:
  assumes "params_m e1 = params_m e2" and "prng_m e1 = prng_m e2"
  shows "Estimate_init e2 cs s2 =
         with_summary_counts (num_hypotheses s2 - num_hypotheses s1) (confidence s2)
           (Estimate_init e1 cs s1)"
proof -
  have e: "e2\<lparr>correspondence_indices_m := map int [0..<length cs]\<rparr> =
           e1\<lparr>correspondence_indices_m := map int [0..<length cs]\<rparr>"
    using assms by (intro GdlsStarRobustEstimator.equality) simp_all
  have s: "s2\<lparr>inliers := [], num_iterations := 0\<rparr> =
           s1\<lparr>inliers := [], num_iterations := 0,
              num_hypotheses := num_hypotheses s1 + (num_hypotheses s2 - num_hypotheses s1),
              confidence := confidence s2\<rparr>"
    by (intro RansacSummary.equality) simp_all
  show ?thesis
    by (simp add: Estimate_init_def with_summary_counts_def Let_def e s assms)
qed

text \<open>
  Claim C3, as amended. Two calls of \<open>Estimate\<close> with the same collaborators,
  correspondences and priors, on estimators with the same parameters whose generators
  are in the same state (two estimators freshly constructed from the same parameters and
  seed, for instance), end alike: both fail with the same error, or both return the same
  solution, the same inliers, iteration count and confidence, and leave the estimator in
  the same state. Neither the index array the estimator held before nor the summary the
  caller passed in matters. (Nothing is said of the hypothesis counter, see C1.)
\<close>

theorem Estimate_depends_on_generator_state_only:
  assumes "params_m e1 = params_m e2" and "prng_m e1 = prng_m e2"
  shows "map_sum id (\<lambda>(solution, summary, this').
                       (solution, inliers summary, num_iterations summary, confidence summary, this'))
           (Estimate env e1 the_priors correspondences (Some s1)) =
         map_sum id (\<lambda>(solution, summary, this').
                       (solution, inliers summary, num_iterations summary, confidence summary, this'))
           (Estimate env e2 the_priors correspondences (Some s2))"
proof (cases "kMinimalSampleSize \<le> length correspondences")
  case False
  then show ?thesis by (simp add: Estimate_def)
next
  case True
  let ?lg = "ln (failure_probability (params_m e1))"
  let ?d = "num_hypotheses s2 - num_hypotheses s1"
  have l2: "Estimate_loop env the_priors correspondences (ln (failure_probability (params_m e2)))
              (Estimate_init e2 correspondences s2) =
            map_sum id (with_summary_counts ?d (confidence s2))
              (Estimate_loop env the_priors correspondences ?lg (Estimate_init e1 correspondences s1))"
    using Estimate_init_with_summary_counts [OF assms, of correspondences s2 s1] assms(1)
    by (simp add: Estimate_loop_with_summary_counts)
  show ?thesis
  proof (cases "Estimate_loop env the_priors correspondences ?lg (Estimate_init e1 correspondences s1)")
    case (Inl e)
    with True l2 show ?thesis by (simp add: Estimate_def)
  next
    case (Inr st)
    with True l2 show ?thesis
      by (simp add: Estimate_def final_confidence_with_summary_counts)
         (simp add: with_summary_counts_def)
  qed
qed

theorem Estimate_depends_on_generator_state_only_witness:
  "map_sum id (\<lambda>(solution, summary, this').
                 (solution, inliers summary, num_iterations summary, confidence summary, this'))
     (Estimate test_env test_estimator () (test_correspondences 0) (Some fresh_summary)) =
   map_sum id (\<lambda>(solution, summary, this').
                 (solution, inliers summary, num_iterations summary, confidence summary, this'))
     (Estimate test_env (test_estimator\<lparr>correspondence_indices_m := [3, 1]\<rparr>) ()
        (test_correspondences 0)
        (Some (fresh_summary\<lparr>inliers := [2], num_hypotheses := 7, confidence := 1 / 2\<rparr>)))"
  by (rule Estimate_depends_on_generator_state_only) simp_all

text \<open>
  Claim C3 as stated fails: the generator is seeded at construction only, so a second
  call on the same estimator, with the same correspondences, priors, parameters and seed,
  starts from the state the first call left and draws another sample. Here the two calls
  return different solutions.
\<close>

theorem Estimate_twice_on_one_estimator_differs:
  "\<exists>solution1 summary1 this1 solution2 summary2 this2.
     Estimate shifting_env wide_estimator () (test_correspondences 0) (Some fresh_summary)
       = Inr (solution1, summary1, this1) \<and>
     Estimate shifting_env this1 () (test_correspondences 0) (Some fresh_summary)
       = Inr (solution2, summary2, this2) \<and>
     params_m this1 = params_m wide_estimator \<and>
     solution1 \<noteq> solution2"
proof -
  have "translated_Solution 0 \<noteq> translated_Solution (- 4)"
    by (simp add: translated_Solution_def)
  moreover have "params_m \<lparr>params_m = test_params\<lparr>reprojection_error_thresh := 10\<rparr>, prng_m = 4::nat,
           correspondence_indices_m = [0, 2, 4, 1, 3]\<rparr> = params_m wide_estimator"
    by (simp add: wide_estimator_def)
  ultimately show ?thesis
    using Estimate_shifting_first [of fresh_summary] Estimate_shifting_second [of fresh_summary]
    by blast
qed

subsection \<open>A run without inliers\<close>














text \<open>
  For ordinary failure probabilities the same quotient is far above \<^verbatim>\<open>INT_MAX\<close> and its
  conversion is undefined. With the conversion of x86-64 (\<^verbatim>\<open>INT_MIN\<close>) the clamp
  returns \<open>min_iterations\<close>: on the test input with \<open>d = 100\<close> and the failure
  probability \<open>1 / 100\<close> no hypothesis has an inlier and \<open>max_iterations\<close> is \<open>3\<close>, yet the
  run ends after one iteration.
\<close>

theorem Estimate_without_inliers_x86:
  "hypothesis_inliers test_env test_estimator (test_correspondences 100) identity_Solution 0 = [] \<and>
   max_iterations (params_m test_estimator) = 3 \<and>
   Estimate test_env test_estimator () (test_correspondences 100) (Some fresh_summary) =
     Inr (identity_Solution,
          \<lparr>inliers = [], num_iterations = 1, num_hypotheses = 1, confidence = 0\<rparr>,
          \<lparr>params_m = test_params, prng_m = 4, correspondence_indices_m = [0, 2, 4, 1, 3]\<rparr>)"
proof -
  have "hypothesis_inliers test_env test_estimator (test_correspondences 100) identity_Solution 0 = []"
    by (simp add: identity_Solution_translated hypothesis_inliers_translated [OF test_env_simps(2)]
          test_estimator_def test_params_def)
  moreover have "max_iterations (params_m test_estimator) = 3"
    by (simp add: test_estimator_def test_params_def)
  ultimately show ?thesis
    using Estimate_test_no_inliers [of fresh_summary] by (simp add: fresh_summary_def)
qed

subsection \<open>Construction\<close>

text \<open>
  Claim C8. Construction succeeds exactly when \<open>0 < failure_probability < 1\<close>,
  \<open>reprojection_error_thresh > 0\<close>, \<open>min_iterations \<ge> 0\<close> and
  \<open>max_iterations > min_iterations\<close>; otherwise it fails with a fatal check. On success
  the estimator holds the parameters as given and a generator seeded with the seed, and
  nothing else (the index array is empty).
\<close>

theorem construction_succeeds_iff_valid:
  "((\<exists>this. GdlsStarRobustEstimator_new env p = Inr this) \<longleftrightarrow> valid_params p)
   \<and> (\<forall>this. GdlsStarRobustEstimator_new env p = Inr this \<longrightarrow>
          this = \<lparr>params_m = p, prng_m = SeedPrng env (seed p), correspondence_indices_m = []\<rparr>)
   \<and> (\<not> valid_params p \<longrightarrow> (\<exists>e. GdlsStarRobustEstimator_new env p = Inl e))"
  by (auto simp: GdlsStarRobustEstimator_new_def valid_params_def)

theorem construction_succeeds_iff_valid_witness:
  "GdlsStarRobustEstimator_new test_env test_params = Inr test_estimator \<and>
   valid_params test_params \<and>
   (\<exists>e. GdlsStarRobustEstimator_new test_env (test_params\<lparr>max_iterations := 0\<rparr>) = Inl e)"
proof -
  have v: "valid_params test_params"
    by (simp add: valid_params_def test_params_def)
  have n: "\<not> valid_params (test_params\<lparr>max_iterations := 0\<rparr>)"
    by (simp add: valid_params_def test_params_def)
  from v construction_succeeds_iff_valid [of test_env test_params]
  have "GdlsStarRobustEstimator_new test_env test_params =
        Inr \<lparr>params_m = test_params, prng_m = SeedPrng test_env (seed test_params),
             correspondence_indices_m = []\<rparr>"
    by blast
  then have "GdlsStarRobustEstimator_new test_env test_params = Inr test_estimator"
    by (simp add: test_estimator_def test_env_def test_params_def)
  moreover from n construction_succeeds_iff_valid [of test_env "test_params\<lparr>max_iterations := 0\<rparr>"]
  have "\<exists>e. GdlsStarRobustEstimator_new test_env (test_params\<lparr>max_iterations := 0\<rparr>) = Inl e"
    by blast
  ultimately show ?thesis using v by simp
qed

subsection \<open>The adaptive iteration bound\<close>

text \<open>
  Claim C7. For an estimator whose parameters passed construction, every inlier ratio in
  \<open>(0, 1]\<close> and every logarithm of a failure probability, \<open>ComputeMaxIterations\<close> returns
  a value, and the value lies between \<open>min_iterations\<close> and \<open>max_iterations\<close>, whatever the
  platform yields for a conversion that does not fit an \<^verbatim>\<open>int\<close>.
\<close>

theorem ComputeMaxIterations_within_bounds:
  assumes "valid_params (params_m this)"
    and "0 < inlier_ratio" and "inlier_ratio \<le> 1"
  shows "\<exists>m. ComputeMaxIterations env this inlier_ratio log_failure_prob = Inr m \<and>
             min_iterations (params_m this) \<le> m \<and> m \<le> max_iterations (params_m this)"
  using assms
  by (auto simp: ComputeMaxIterations_def valid_params_def Let_def clamp_def split: if_splits)

theorem ComputeMaxIterations_within_bounds_witness:
  "\<exists>m. ComputeMaxIterations test_env test_estimator (1 / 2) (ln (1 / 100)) = Inr m \<and>
       0 \<le> m \<and> m \<le> 3"
proof -
  have "valid_params (params_m test_estimator)"
    by (simp add: valid_params_def test_estimator_def test_params_def)
  from ComputeMaxIterations_within_bounds [OF this, of "1 / 2" test_env "ln (1 / 100)"]
  show ?thesis by (simp add: test_estimator_def test_params_def)
qed

end
